theory Spec2Isabelle
  imports Complex_Main "HOL-Library.Sublist"
begin

section \<open>Data model\<close>

text \<open>
  The repository consists of notebook scripts that sequence calls into an external
  toolkit. The scripts are embedded as they are written; the toolkit's numerical
  collaborators (calculator, optimizer, variation operators, random numbers) are
  parameters collected in an environment record, and the two persistence layers the
  scripts talk to (the GA candidate store and the key-value database) are explicit
  states. Python floats are idealised as reals.
\<close>

datatype py_error = KeyError | ValueError | IndexError | TypeError | AttributeError

datatype val = Num real | Str string | IntV int

text \<open>
  An in-memory candidate: the structure itself, \<open>info['confid']\<close> and
  \<open>info['key_value_pairs']\<close>.
\<close>

record 'a candidate =
  struct :: 'a
  confid :: "nat option"
  key_value_pairs :: "string \<rightharpoonup> val"

text \<open>
  One entry of the candidate store. The listings printed in the alloy notebook show
  one row per step: the starting candidates are rows 2..11, their relaxed steps are
  rows 12..21, and every later candidate owns two consecutive rows. A candidate is
  identified by \<open>gaid\<close>; \<open>relaxed\<close> is the relaxation state of the step.
\<close>

record 'a entry =
  gaid :: nat
  relaxed :: bool
  origin :: string
  e_struct :: 'a
  e_kvp :: "string \<rightharpoonup> val"

type_synonym 'a store = "'a entry list"

section \<open>Candidate store\<close>

text \<open>
  The candidate store (\<open>ase.ga.data.DataConnection\<close>) is a library class that is not
  part of the repository. The spec describes it as an append-only ledger of all candidates
  ever created, indexed by identifier, with the operations: add an unrelaxed candidate
  (with a provenance description), retrieve one unrelaxed candidate (any one), mark a
  candidate relaxed with its fitness, count the unrelaxed candidates, retrieve all relaxed
  candidates. Each operation below is modelled from that description.
\<close>

text \<open>
  Modelled from the spec: \<open>DataConnection.add_unrelaxed_candidate\<close> is missing. Add an
  unrelaxed candidate with its provenance description: an unrelaxed entry is appended, the
  number of its row becomes the identifier of the candidate and is written into the
  in-memory candidate as \<open>info['confid']\<close>.
\<close>

definition add_unrelaxed_candidate ::
  "'a store \<Rightarrow> 'a candidate \<Rightarrow> string \<Rightarrow> 'a store \<times> 'a candidate" where
  "add_unrelaxed_candidate S a description =
     (let g = Suc (length S)
      in (S @ [\<lparr>gaid = g, relaxed = False, origin = description,
                 e_struct = struct a, e_kvp = key_value_pairs a\<rparr>],
          a\<lparr>confid := Some g\<rparr>))"

text \<open>
  Modelled from the spec: \<open>DataConnection.add_unrelaxed_step\<close> is missing. The ledger is
  append-only: a further unrelaxed step of a candidate that already has an identifier (the
  mutated child in the pool GA) is appended under that identifier. Without an identifier
  the lookup \<open>info['confid']\<close> raises.
\<close>

definition add_unrelaxed_step ::
  "'a store \<Rightarrow> 'a candidate \<Rightarrow> string \<Rightarrow> py_error + 'a store" where
  "add_unrelaxed_step S a description =
     (case confid a of
        None \<Rightarrow> Inl KeyError
      | Some g \<Rightarrow> Inr (S @ [\<lparr>gaid = g, relaxed = False, origin = description,
                              e_struct = struct a, e_kvp = key_value_pairs a\<rparr>]))"

text \<open>
  Modelled from the spec: \<open>DataConnection.add_relaxed_step\<close> is missing. Mark a candidate
  relaxed with its fitness: the relaxed step is appended under the identifier of the
  candidate, carrying the key-value pairs of the in-memory candidate (the raw score among
  them).
\<close>

definition add_relaxed_step :: "'a store \<Rightarrow> 'a candidate \<Rightarrow> py_error + 'a store" where
  "add_relaxed_step S a =
     (case confid a of
        None \<Rightarrow> Inl KeyError
      | Some g \<Rightarrow> Inr (S @ [\<lparr>gaid = g, relaxed = True, origin = [],
                              e_struct = struct a, e_kvp = key_value_pairs a\<rparr>]))"

text \<open>
  Modelled from the spec: the relaxation state of a candidate. The identifiers that have a
  relaxed step.
\<close>

definition relaxed_ids :: "'a store \<Rightarrow> nat list" where
  "relaxed_ids S = map gaid (filter relaxed S)"

text \<open>
  Modelled from the spec: the unrelaxed candidates are those that have an unrelaxed step
  and no relaxed step. These are their entries.
\<close>

definition unrelaxed_entries :: "'a store \<Rightarrow> 'a entry list" where
  "unrelaxed_entries S =
     filter (\<lambda>e. \<not> relaxed e \<and> gaid e \<notin> set (relaxed_ids S)) S"

text \<open>
  Modelled from the spec: \<open>DataConnection.get_number_of_unrelaxed_candidates\<close> is
  missing. Query the count of unrelaxed candidates.
\<close>

definition get_number_of_unrelaxed_candidates :: "'a store \<Rightarrow> nat" where
  "get_number_of_unrelaxed_candidates S = length (remdups (map gaid (unrelaxed_entries S)))"

text \<open>
  Modelled from the spec: \<open>DataConnection.get_an_unrelaxed_candidate\<close> is missing.
  Retrieve one unrelaxed candidate, any one, with no ordering guarantee: the choice is left
  to a policy \<open>pick\<close>, an arbitrary function of the store. Without an unrelaxed candidate
  the call raises.
\<close>

definition get_an_unrelaxed_candidate ::
  "('a store \<Rightarrow> nat) \<Rightarrow> 'a store \<Rightarrow> py_error + 'a candidate" where
  "get_an_unrelaxed_candidate pick S =
     (case unrelaxed_entries S of
        [] \<Rightarrow> Inl ValueError
      | e0 # es \<Rightarrow>
          (let e = (e0 # es) ! (pick S mod length (e0 # es))
           in Inr \<lparr>struct = e_struct e, confid = Some (gaid e), key_value_pairs = e_kvp e\<rparr>))"

text \<open>
  Modelled from the spec: \<open>DataConnection.get_all_relaxed_candidates\<close> is missing.
  Retrieve all relaxed candidates.
\<close>

definition get_all_relaxed_candidates :: "'a store \<Rightarrow> 'a candidate list" where
  "get_all_relaxed_candidates S =
     map (\<lambda>e. \<lparr>struct = e_struct e, confid = Some (gaid e), key_value_pairs = e_kvp e\<rparr>)
       (filter relaxed S)"

section \<open>Pool GA: relaxing the starting population\<close>

text \<open>
  The external collaborators of the pool GA script. \<open>bfgs\<close> is the local relaxation
  \<open>BFGS(a).run(fmax=0.05, steps=100)\<close>, \<open>emt_energy\<close> is
  \<open>get_potential_energy()\<close> with the EMT calculator. The random collaborators take
  the number of the loop iteration that calls them.
\<close>

record ('a, 'p) ga_env =
  pick_unrelaxed :: "'a store \<Rightarrow> nat"
  bfgs :: "'a \<Rightarrow> 'a"
  emt_energy :: "'a \<Rightarrow> real"
  get_two_candidates :: "nat \<Rightarrow> 'p \<Rightarrow> ('a candidate \<times> 'a candidate) option"
  pairing :: "nat \<Rightarrow> 'a candidate \<Rightarrow> 'a candidate \<Rightarrow> 'a candidate option \<times> string"
  random :: "nat \<Rightarrow> real"
  mutations :: "nat \<Rightarrow> 'a candidate \<Rightarrow> 'a candidate option \<times> string"
  population_update :: "'a store \<Rightarrow> 'p \<Rightarrow> 'p"

text \<open>
  The three lines shared by both loops of the script:
  \<^verbatim>\<open>
  dyn = BFGS(a, trajectory=None, logfile=None)
  dyn.run(fmax=0.05, steps=100)
  a.info['key_value_pairs']['raw_score'] = -a.get_potential_energy()
  \<close>
\<close>

definition relax_and_score :: "('a, 'p) ga_env \<Rightarrow> 'a candidate \<Rightarrow> 'a candidate" where
  "relax_and_score env a =
     (let a1 = a\<lparr>struct := bfgs env (struct a)\<rparr>
      in a1\<lparr>key_value_pairs :=
               (key_value_pairs a1)(''raw_score'' \<mapsto> Num (- emt_energy env (struct a1)))\<rparr>)"

text \<open>One pass through the body of the relax-all loop.\<close>

definition relax_one :: "('a, 'p) ga_env \<Rightarrow> 'a store \<Rightarrow> py_error + 'a store" where
  "relax_one env S =
     (case get_an_unrelaxed_candidate (pick_unrelaxed env) S of
        Inl err \<Rightarrow> Inl err
      | Inr a \<Rightarrow> add_relaxed_step S (relax_and_score env a))"

text \<open>
  Counting the unrelaxed candidates: marking one of them relaxed removes exactly its
  identifier from the count. These facts carry the termination of the loop below.
\<close>

lemma count_card:
  "get_number_of_unrelaxed_candidates S =
     card (gaid ` {e \<in> set S. \<not> relaxed e} - gaid ` {e \<in> set S. relaxed e})"
proof -
  have "set (map gaid (unrelaxed_entries S)) =
        gaid ` {e \<in> set S. \<not> relaxed e} - gaid ` {e \<in> set S. relaxed e}"
    by (auto simp: unrelaxed_entries_def relaxed_ids_def)
  then show ?thesis
    unfolding get_number_of_unrelaxed_candidates_def length_remdups_card_conv by (rule arg_cong)
qed

lemma get_an_unrelaxed_candidate_Inr:
  assumes "get_an_unrelaxed_candidate pick S = Inr a"
  shows "\<exists>e \<in> set (unrelaxed_entries S).
           a = \<lparr>struct = e_struct e, confid = Some (gaid e), key_value_pairs = e_kvp e\<rparr>"
proof (cases "unrelaxed_entries S")
  case Nil
  with assms show ?thesis by (simp add: get_an_unrelaxed_candidate_def)
next
  case (Cons e0 es)
  let ?e = "(e0 # es) ! (pick S mod length (e0 # es))"
  have "?e \<in> set (e0 # es)" by (rule nth_mem) simp
  with assms Cons show ?thesis
    by (auto simp: get_an_unrelaxed_candidate_def Let_def)
qed

lemma count_mark_relaxed:
  assumes "e \<in> set (unrelaxed_entries S)"
  shows "Suc (get_number_of_unrelaxed_candidates
           (S @ [\<lparr>gaid = gaid e, relaxed = True, origin = d, e_struct = s, e_kvp = k\<rparr>]))
         = get_number_of_unrelaxed_candidates S"
proof -
  let ?U = "gaid ` {x \<in> set S. \<not> relaxed x}"
  let ?R = "gaid ` {x \<in> set S. relaxed x}"
  let ?n = "\<lparr>gaid = gaid e, relaxed = True, origin = d, e_struct = s, e_kvp = k\<rparr>"
  let ?S' = "S @ [?n]"
  have mem: "gaid e \<in> ?U - ?R"
    using assms by (auto simp: unrelaxed_entries_def relaxed_ids_def)
  have fin: "finite (?U - ?R)" by simp
  have "{x \<in> set ?S'. \<not> relaxed x} = {x \<in> set S. \<not> relaxed x}" by auto
  then have U': "gaid ` {x \<in> set ?S'. \<not> relaxed x} = ?U" by (rule arg_cong)
  have "{x \<in> set ?S'. relaxed x} = insert ?n {x \<in> set S. relaxed x}" by auto
  then have "gaid ` {x \<in> set ?S'. relaxed x} = gaid ` insert ?n {x \<in> set S. relaxed x}"
    by (rule arg_cong)
  then have R': "gaid ` {x \<in> set ?S'. relaxed x} = insert (gaid e) ?R" by simp
  have "get_number_of_unrelaxed_candidates ?S' =
        card (gaid ` {x \<in> set ?S'. \<not> relaxed x} - gaid ` {x \<in> set ?S'. relaxed x})"
    by (rule count_card)
  also have "\<dots> = card (?U - insert (gaid e) ?R)" unfolding U' R' ..
  also have "?U - insert (gaid e) ?R = (?U - ?R) - {gaid e}" by blast
  finally have "Suc (get_number_of_unrelaxed_candidates ?S') = Suc (card ((?U - ?R) - {gaid e}))"
    by (rule arg_cong)
  also have "\<dots> = card (?U - ?R)" using fin mem by (rule card_Suc_Diff1)
  also have "\<dots> = get_number_of_unrelaxed_candidates S" by (rule count_card [symmetric])
  finally show ?thesis .
qed

lemma relax_one_decreases:
  assumes "relax_one env S = Inr S'"
  shows "Suc (get_number_of_unrelaxed_candidates S') = get_number_of_unrelaxed_candidates S"
proof -
  from assms obtain a where a: "get_an_unrelaxed_candidate (pick_unrelaxed env) S = Inr a"
    and S': "add_relaxed_step S (relax_and_score env a) = Inr S'"
    by (auto simp: relax_one_def split: sum.splits)
  from get_an_unrelaxed_candidate_Inr [OF a] obtain e where
    e: "e \<in> set (unrelaxed_entries S)"
    and ae: "a = \<lparr>struct = e_struct e, confid = Some (gaid e), key_value_pairs = e_kvp e\<rparr>"
    by blast
  have "confid (relax_and_score env a) = Some (gaid e)"
    unfolding ae by (simp add: relax_and_score_def Let_def)
  with S' have "S' = S @ [\<lparr>gaid = gaid e, relaxed = True, origin = [],
      e_struct = struct (relax_and_score env a),
      e_kvp = key_value_pairs (relax_and_score env a)\<rparr>]"
    by (simp add: add_relaxed_step_def)
  then show ?thesis by (simp only: count_mark_relaxed [OF e])
qed

lemma get_an_unrelaxed_candidate_nonempty:
  assumes "unrelaxed_entries S \<noteq> []"
  shows "\<exists>a g. get_an_unrelaxed_candidate pick S = Inr a \<and> confid a = Some g"
proof -
  from assms obtain e0 es where ne: "unrelaxed_entries S = e0 # es"
    by (cases "unrelaxed_entries S") simp_all
  show ?thesis
    unfolding get_an_unrelaxed_candidate_def ne Let_def by simp
qed

lemma relax_one_succeeds:
  assumes "0 < get_number_of_unrelaxed_candidates S"
  shows "\<exists>S'. relax_one env S = Inr S'"
proof -
  from assms have "unrelaxed_entries S \<noteq> []"
    unfolding get_number_of_unrelaxed_candidates_def by auto
  from get_an_unrelaxed_candidate_nonempty [OF this, of "pick_unrelaxed env"]
  obtain a g where a: "get_an_unrelaxed_candidate (pick_unrelaxed env) S = Inr a"
    and g: "confid a = Some g" by blast
  have "confid (relax_and_score env a) = Some g"
    using g by (simp add: relax_and_score_def Let_def)
  then have "\<exists>S'. add_relaxed_step S (relax_and_score env a) = Inr S'"
    by (simp add: add_relaxed_step_def)
  with a show ?thesis by (simp add: relax_one_def)
qed

text \<open>
  \<^verbatim>\<open>
  while da.get_number_of_unrelaxed_candidates() > 0:
      a = da.get_an_unrelaxed_candidate()
      a.set_calculator(EMT())
      dyn = BFGS(a, trajectory=None, logfile=None)
      dyn.run(fmax=0.05, steps=100)
      a.info['key_value_pairs']['raw_score'] = -a.get_potential_energy()
      da.add_relaxed_step(a)
  \<close>
\<close>

function relax_all :: "('a, 'p) ga_env \<Rightarrow> 'a store \<Rightarrow> py_error + 'a store" where
  "relax_all env S =
     (if get_number_of_unrelaxed_candidates S > 0 then
        (case relax_one env S of
           Inl err \<Rightarrow> Inl err
         | Inr S' \<Rightarrow> relax_all env S')
      else Inr S)"
  by pat_completeness auto
termination
proof (relation "measure (\<lambda>(env, S). get_number_of_unrelaxed_candidates S)")
  show "wf (measure (\<lambda>(env :: ('a, 'p) ga_env, S). get_number_of_unrelaxed_candidates S))" by simp
next
  fix env :: "('a, 'p) ga_env" and S S' :: "'a store"
  assume "relax_one env S = Inr S'"
  from relax_one_decreases [OF this]
  show "((env, S'), (env, S)) \<in> measure (\<lambda>(env, S). get_number_of_unrelaxed_candidates S)"
    by simp
qed

declare relax_all.simps [simp del]

section \<open>Pool GA: the main loop\<close>

definition mutation_probability :: real where
  "mutation_probability = 0.3"

definition n_to_test :: nat where
  "n_to_test = 20"

text \<open>
  \<^verbatim>\<open>
  if random() < mutation_probability:
      a3_mut, desc = mutations.get_new_individual([a3])
      if a3_mut is not None:
          da.add_unrelaxed_step(a3_mut, desc)
          a3 = a3_mut
  \<close>
  The result is the store and the candidate bound to \<open>a3\<close> afterwards.
\<close>

definition mutate ::
  "('a, 'p) ga_env \<Rightarrow> nat \<Rightarrow> 'a store \<Rightarrow> 'a candidate \<Rightarrow> py_error + ('a store \<times> 'a candidate)" where
  "mutate env i S a3 =
     (if random env i < mutation_probability then
        (case mutations env i a3 of
           (Some a3_mut, desc) \<Rightarrow>
             (case add_unrelaxed_step S a3_mut desc of
                Inl err \<Rightarrow> Inl err
              | Inr S' \<Rightarrow> Inr (S', a3_mut))
         | (None, desc) \<Rightarrow> Inr (S, a3))
      else Inr (S, a3))"

text \<open>
  One iteration of
  \<^verbatim>\<open>
  for i in range(n_to_test):
      a1, a2 = population.get_two_candidates()
      a3, desc = pairing.get_new_individual([a1, a2])
      if a3 is None:
          continue
      da.add_unrelaxed_candidate(a3, description=desc)
      (mutation, see above)
      a3.set_calculator(EMT())
      dyn = BFGS(a3, trajectory=None, logfile=None)
      dyn.run(fmax=0.05, steps=100)
      a3.info['key_value_pairs']['raw_score'] = -a3.get_potential_energy()
      da.add_relaxed_step(a3)
      population.update()
  \<close>
  The state is the store together with the population. Unpacking a selection that is
  not a pair raises.
\<close>

definition ga_iteration ::
  "('a, 'p) ga_env \<Rightarrow> nat \<Rightarrow> 'a store \<times> 'p \<Rightarrow> py_error + ('a store \<times> 'p)" where
  "ga_iteration env i st =
     (case st of (S, P) \<Rightarrow>
        (case get_two_candidates env i P of
           None \<Rightarrow> Inl TypeError
         | Some (a1, a2) \<Rightarrow>
             (case pairing env i a1 a2 of
                (None, desc) \<Rightarrow> Inr (S, P)
              | (Some a3, desc) \<Rightarrow>
                  (case add_unrelaxed_candidate S a3 desc of (S1, a3') \<Rightarrow>
                     (case mutate env i S1 a3' of
                        Inl err \<Rightarrow> Inl err
                      | Inr (S2, a3'') \<Rightarrow>
                          (case add_relaxed_step S2 (relax_and_score env a3'') of
                             Inl err \<Rightarrow> Inl err
                           | Inr S3 \<Rightarrow> Inr (S3, population_update env S3 P)))))))"

fun ga_loop ::
  "('a, 'p) ga_env \<Rightarrow> nat list \<Rightarrow> 'a store \<times> 'p \<Rightarrow> py_error + ('a store \<times> 'p)" where
  "ga_loop env [] st = Inr st"
| "ga_loop env (i # is) st =
     (case ga_iteration env i st of
        Inl err \<Rightarrow> Inl err
      | Inr st' \<Rightarrow> ga_loop env is st')"

text \<open>
  The main script: relax the starting population, create the population from the store,
  test \<open>n_to_test\<close> new candidates.
\<close>

definition ga_main ::
  "('a, 'p) ga_env \<Rightarrow> ('a store \<Rightarrow> 'p) \<Rightarrow> 'a store \<Rightarrow> py_error + ('a store \<times> 'p)" where
  "ga_main env Population S =
     (case relax_all env S of
        Inl err \<Rightarrow> Inl err
      | Inr S1 \<Rightarrow> ga_loop env [0..<n_to_test] (S1, Population S1))"

section \<open>Alloy GA: the evaluation function\<close>

text \<open>
  The reference database \<open>refs.db\<close> is read with \<open>db.get(metal=m)\<close>, which raises
  when no row has the metal. A row is used through its two fields.
\<close>

record ref_row =
  latticeconstant :: real
  energy_per_atom :: real

type_synonym ref_db = "string \<rightharpoonup> ref_row"

text \<open>
  The collaborators of the alloy script. \<open>emt_fcc syms c\<close> is the potential energy of
  the fcc model structure with the chemical symbols \<open>syms\<close> (in site order) in a cubic
  cell of edge \<open>c\<close>; \<open>cbrt\<close> is \<open>x ** (1. / 3)\<close>; \<open>eos_fit\<close> is
  \<open>EquationOfState(volumes, energies).fit()\<close>. The random collaborators take the
  generation and the number of the inner iteration.
\<close>

record 'p alloy_env =
  alloy_pick :: "string list store \<Rightarrow> nat"
  emt_fcc :: "string list \<Rightarrow> real \<Rightarrow> real"
  cbrt :: "real \<Rightarrow> real"
  eos_fit :: "real list \<Rightarrow> real list \<Rightarrow> real \<times> real \<times> real"
  alloy_get_two_candidates ::
    "nat \<Rightarrow> nat \<Rightarrow> 'p \<Rightarrow> (string list candidate \<times> string list candidate) option"
  get_new_individual ::
    "nat \<Rightarrow> nat \<Rightarrow> string list candidate \<Rightarrow> string list candidate
       \<Rightarrow> string list candidate option \<times> string"
  converged :: "'p \<Rightarrow> bool"
  alloy_population_update :: "string list store \<Rightarrow> 'p \<Rightarrow> 'p"

text \<open>
  \<open>FaceCenteredCubic('X', latticeconstant=1.)\<close> is the conventional cubic cell with four
  atoms; \<open>set_chemical_symbols\<close> raises unless it is given one symbol per atom.
\<close>

definition fcc_natoms :: nat where
  "fcc_natoms = 4"

definition eps :: real where
  "eps = 0.05"

text \<open>\<open>np.linspace(start, stop, num)\<close>: \<open>num\<close> evenly spaced samples, both ends included.\<close>

definition linspace :: "real \<Rightarrow> real \<Rightarrow> nat \<Rightarrow> real list" where
  "linspace start stop num =
     map (\<lambda>k. start + real k * ((stop - start) / real (num - 1))) [0..<num]"

text \<open>
  \<^verbatim>\<open>
  a = 0
  ei = 0
  for m in set(atoms_string):
      dct = db.get(metal=m)
      count = atoms_string.count(m)
      a += count * dct.latticeconstant
      ei += count * dct.energy_per_atom
  \<close>
  The third argument is the list of distinct symbols still to visit.
\<close>

fun ref_totals ::
  "ref_db \<Rightarrow> string list \<Rightarrow> string list \<Rightarrow> real \<times> real \<Rightarrow> py_error + real \<times> real" where
  "ref_totals db atoms_string [] acc = Inr acc"
| "ref_totals db atoms_string (m # ms) acc =
     (case db m of
        None \<Rightarrow> Inl KeyError
      | Some dct \<Rightarrow>
          (let count = real (count_list atoms_string m)
           in ref_totals db atoms_string ms
                (fst acc + count * latticeconstant dct, snd acc + count * energy_per_atom dct)))"

definition volumes_of :: "real \<Rightarrow> real list" where
  "volumes_of a = map (\<lambda>x. (a * x) ^ 3) (linspace (1 - eps) (1 + eps) 9)"

definition energies_of :: "'p alloy_env \<Rightarrow> string list \<Rightarrow> real list \<Rightarrow> real list" where
  "energies_of env atoms_string volumes =
     map (\<lambda>v. emt_fcc env atoms_string (cbrt env v)) volumes"

text \<open>
  The function \<open>relax(input_atoms, ref_db)\<close> of the alloy notebook. It returns the input
  candidate with the four keys \<open>hof\<close>, \<open>raw_score\<close>, \<open>latticeconstant\<close> and
  \<open>atoms_string\<close> written into its key-value pairs.
\<close>

definition relax ::
  "'p alloy_env \<Rightarrow> string list candidate \<Rightarrow> ref_db \<Rightarrow> py_error + string list candidate" where
  "relax env input_atoms db =
     (let atoms_string = struct input_atoms
      in if length atoms_string \<noteq> fcc_natoms then Inl ValueError
         else
           (case ref_totals db atoms_string (remdups atoms_string) (0, 0) of
              Inl err \<Rightarrow> Inl err
            | Inr (a_sum, ei) \<Rightarrow>
                (let a = a_sum / real (length atoms_string);
                     volumes = volumes_of a;
                     energies = energies_of env atoms_string volumes
                 in (case eos_fit env volumes energies of
                       (v1, ef, B) \<Rightarrow>
                         (let lc = cbrt env v1;
                              hof = (ef - ei) / real fcc_natoms
                          in Inr (input_atoms\<lparr>key_value_pairs :=
                                    (key_value_pairs input_atoms)
                                      (''hof'' \<mapsto> Num hof,
                                       ''raw_score'' \<mapsto> Num (- hof),
                                       ''latticeconstant'' \<mapsto> Num lc,
                                       ''atoms_string'' \<mapsto> Str (concat atoms_string))\<rparr>))))))"

section \<open>Alloy GA: the loops\<close>

definition alloy_relax_one ::
  "'p alloy_env \<Rightarrow> ref_db \<Rightarrow> string list store \<Rightarrow> py_error + string list store" where
  "alloy_relax_one env db S =
     (case get_an_unrelaxed_candidate (alloy_pick env) S of
        Inl err \<Rightarrow> Inl err
      | Inr a \<Rightarrow>
          (case relax env a db of
             Inl err \<Rightarrow> Inl err
           | Inr a' \<Rightarrow> add_relaxed_step S a'))"

text \<open>The evaluation only writes key-value pairs; the identifier is untouched.\<close>

lemma relax_Inr:
  assumes "relax env a db = Inr a'"
  shows "\<exists>kv. a' = a\<lparr>key_value_pairs := kv\<rparr>"
  using assms unfolding relax_def Let_def
  by (auto split: if_splits sum.splits prod.splits)

lemma alloy_relax_one_decreases:
  assumes "alloy_relax_one env db S = Inr S'"
  shows "Suc (get_number_of_unrelaxed_candidates S') = get_number_of_unrelaxed_candidates S"
proof -
  from assms obtain a a' where a: "get_an_unrelaxed_candidate (alloy_pick env) S = Inr a"
    and a': "relax env a db = Inr a'"
    and S': "add_relaxed_step S a' = Inr S'"
    by (auto simp: alloy_relax_one_def split: sum.splits)
  from get_an_unrelaxed_candidate_Inr [OF a] obtain e where
    e: "e \<in> set (unrelaxed_entries S)"
    and ae: "a = \<lparr>struct = e_struct e, confid = Some (gaid e), key_value_pairs = e_kvp e\<rparr>"
    by blast
  from relax_Inr [OF a'] obtain kv where "a' = a\<lparr>key_value_pairs := kv\<rparr>" by blast
  then have "confid a' = Some (gaid e)" unfolding ae by simp
  with S' have "S' = S @ [\<lparr>gaid = gaid e, relaxed = True, origin = [],
      e_struct = struct a', e_kvp = key_value_pairs a'\<rparr>]"
    by (simp add: add_relaxed_step_def)
  then show ?thesis by (simp only: count_mark_relaxed [OF e])
qed

text \<open>
  \<^verbatim>\<open>
  while db.get_number_of_unrelaxed_candidates() > 0:
      a = db.get_an_unrelaxed_candidate()
      relax(a, ref_db)
      db.add_relaxed_step(a)
  \<close>
\<close>

function alloy_relax_all ::
  "'p alloy_env \<Rightarrow> ref_db \<Rightarrow> string list store \<Rightarrow> py_error + string list store" where
  "alloy_relax_all env db S =
     (if get_number_of_unrelaxed_candidates S > 0 then
        (case alloy_relax_one env db S of
           Inl err \<Rightarrow> Inl err
         | Inr S' \<Rightarrow> alloy_relax_all env db S')
      else Inr S)"
  by pat_completeness auto
termination
proof (relation "measure (\<lambda>(env, db, S). get_number_of_unrelaxed_candidates S)")
  show "wf (measure (\<lambda>(env :: 'p alloy_env, db :: ref_db, S :: string list store).
              get_number_of_unrelaxed_candidates S))"
    by simp
next
  fix env :: "'p alloy_env" and db :: ref_db and S S' :: "string list store"
  assume "alloy_relax_one env db S = Inr S'"
  from alloy_relax_one_decreases [OF this]
  show "((env, db, S'), (env, db, S))
          \<in> measure (\<lambda>(env, db, S). get_number_of_unrelaxed_candidates S)"
    by simp
qed

declare alloy_relax_all.simps [simp del]

text \<open>
  One pass through the body of the inner loop
  \<^verbatim>\<open>
  for i in range(population_size):
      a1, a2 = pop.get_two_candidates(with_history=False)
      op = operation_selector.get_operator()
      a3, desc = op.get_new_individual([a1, a2])
      db.add_unrelaxed_candidate(a3, description=desc)
      relax(a3, ref_db)
      db.add_relaxed_step(a3)
  \<close>
  The script does not test \<open>a3\<close>; a missing offspring raises at the first attribute
  access.
\<close>

definition alloy_iteration ::
  "'p alloy_env \<Rightarrow> ref_db \<Rightarrow> nat \<Rightarrow> nat \<Rightarrow> string list store \<times> 'p
     \<Rightarrow> py_error + (string list store \<times> 'p)" where
  "alloy_iteration env db g i st =
     (case st of (S, P) \<Rightarrow>
        (case alloy_get_two_candidates env g i P of
           None \<Rightarrow> Inl TypeError
         | Some (a1, a2) \<Rightarrow>
             (case get_new_individual env g i a1 a2 of
                (None, desc) \<Rightarrow> Inl AttributeError
              | (Some a3, desc) \<Rightarrow>
                  (case add_unrelaxed_candidate S a3 desc of (S1, a3') \<Rightarrow>
                     (case relax env a3' db of
                        Inl err \<Rightarrow> Inl err
                      | Inr a3'' \<Rightarrow>
                          (case add_relaxed_step S1 a3'' of
                             Inl err \<Rightarrow> Inl err
                           | Inr S2 \<Rightarrow> Inr (S2, P)))))))"

fun alloy_inner_loop ::
  "'p alloy_env \<Rightarrow> ref_db \<Rightarrow> nat \<Rightarrow> nat list \<Rightarrow> string list store \<times> 'p
     \<Rightarrow> py_error + (string list store \<times> 'p)" where
  "alloy_inner_loop env db g [] st = Inr st"
| "alloy_inner_loop env db g (i # is) st =
     (case alloy_iteration env db g i st of
        Inl err \<Rightarrow> Inl err
      | Inr st' \<Rightarrow> alloy_inner_loop env db g is st')"

text \<open>
  \<^verbatim>\<open>
  for _ in range(num_gens):
      if cc.converged():
          break
      (inner loop)
      pop.update()
  \<close>
\<close>

fun alloy_generations ::
  "'p alloy_env \<Rightarrow> ref_db \<Rightarrow> nat \<Rightarrow> nat list \<Rightarrow> string list store \<times> 'p
     \<Rightarrow> py_error + (string list store \<times> 'p)" where
  "alloy_generations env db psize [] st = Inr st"
| "alloy_generations env db psize (g # gs) st =
     (if converged env (snd st) then Inr st
      else
        (case alloy_inner_loop env db g [0..<psize] st of
           Inl err \<Rightarrow> Inl err
         | Inr (S, P) \<Rightarrow>
             alloy_generations env db psize gs (S, alloy_population_update env S P)))"

definition num_gens :: nat where
  "num_gens = 40"

text \<open>
  The main script of the alloy notebook: relax the starting population, update the
  population, run the generations.
\<close>

definition alloy_main ::
  "'p alloy_env \<Rightarrow> ref_db \<Rightarrow> nat \<Rightarrow> string list store \<times> 'p
     \<Rightarrow> py_error + (string list store \<times> 'p)" where
  "alloy_main env db psize st =
     (case alloy_relax_all env db (fst st) of
        Inl err \<Rightarrow> Inl err
      | Inr S \<Rightarrow>
          alloy_generations env db psize [0..<num_gens]
            (S, alloy_population_update env S (snd st)))"

section \<open>The key-value database of the adsorption notebook\<close>

text \<open>
  The database (\<open>ase.db\<close>) is a library that is not part of the repository. The spec
  describes reservation records keyed by descriptive parameters, and the notebook
  describes the protocol: \<open>reserve\<close> checks whether there is a row with the given keys;
  if there is, the calculation is skipped; if there is not, an empty row with those
  key-value pairs is written and the calculation starts; when done, the real row is
  written and the empty one is removed. A database is modelled as a list of rows with
  fresh integer identifiers; a row holds an atoms object (none for an empty row) and
  key-value pairs.
\<close>

record 'g atoms =
  symbols :: "string list"
  geometry :: 'g

record 'g db_row =
  row_id :: nat
  row_atoms :: "'g atoms option"
  row_kvp :: "string \<rightharpoonup> val"

record 'g database =
  rows :: "'g db_row list"
  next_id :: nat

text \<open>Modelled from the spec: the atom count of a row; an empty row has none.\<close>

definition natoms :: "'g db_row \<Rightarrow> nat" where
  "natoms r = (case row_atoms r of None \<Rightarrow> 0 | Some ats \<Rightarrow> length (symbols ats))"

text \<open>
  Modelled from the spec: a row is a row "with the keys" when it holds each of the given
  key-value pairs.
\<close>

definition matches :: "(string \<times> val) list \<Rightarrow> 'g db_row \<Rightarrow> bool" where
  "matches kvs r = list_all (\<lambda>(k, v). row_kvp r k = Some v) kvs"

text \<open>Modelled from the spec: \<open>db.select\<close> with key-value pairs, the rows with those keys.\<close>

definition select :: "(string \<times> val) list \<Rightarrow> 'g database \<Rightarrow> 'g db_row list" where
  "select kvs db = filter (matches kvs) (rows db)"

text \<open>
  Modelled from the spec: \<open>db.reserve\<close> is missing. If there is a row with the keys, no
  identifier is returned and nothing is written; otherwise an empty row with those
  key-value pairs is written and its identifier returned.
\<close>

definition reserve :: "(string \<times> val) list \<Rightarrow> 'g database \<Rightarrow> nat option \<times> 'g database" where
  "reserve kvs db =
     (if select kvs db \<noteq> [] then (None, db)
      else (Some (next_id db),
            db\<lparr>rows := rows db @ [\<lparr>row_id = next_id db, row_atoms = None, row_kvp = map_of kvs\<rparr>],
               next_id := Suc (next_id db)\<rparr>))"

text \<open>
  Modelled from the spec: \<open>db.write(atoms, key=value, ...)\<close> is missing. The real row is
  appended under a fresh identifier, which is returned.
\<close>

definition db_write :: "'g atoms \<Rightarrow> (string \<times> val) list \<Rightarrow> 'g database \<Rightarrow> nat \<times> 'g database" where
  "db_write ats kvs db =
     (next_id db,
      db\<lparr>rows := rows db @ [\<lparr>row_id = next_id db, row_atoms = Some ats, row_kvp = map_of kvs\<rparr>],
         next_id := Suc (next_id db)\<rparr>)"

text \<open>
  Modelled from the spec: \<open>db.write(atoms, id=id, key=value, ...)\<close> is missing. The row
  with the identifier is overwritten in place.
\<close>

definition write_id ::
  "'g atoms \<Rightarrow> nat \<Rightarrow> (string \<times> val) list \<Rightarrow> 'g database \<Rightarrow> 'g database" where
  "write_id ats i kvs db =
     db\<lparr>rows := map (\<lambda>r. if row_id r = i
                          then \<lparr>row_id = i, row_atoms = Some ats, row_kvp = map_of kvs\<rparr>
                          else r) (rows db)\<rparr>"

text \<open>Modelled from the spec: \<open>del db[id]\<close> is missing. The row is removed.\<close>

definition delete :: "nat \<Rightarrow> 'g database \<Rightarrow> 'g database" where
  "delete i db = db\<lparr>rows := filter (\<lambda>r. row_id r \<noteq> i) (rows db)\<rparr>"

text \<open>
  Modelled from the spec: identifiers are never handed out twice, so every row has an
  identifier below the counter.
\<close>

definition wf_db :: "'g database \<Rightarrow> bool" where
  "wf_db db = list_all (\<lambda>r. row_id r < next_id db) (rows db)"

section \<open>The adsorption scripts\<close>

text \<open>
  The collaborators of the adsorption notebook: \<open>fcc111_geometry symb n a\<close> is the
  geometry of \<open>fcc111(symb, (1, 1, n), a=a)\<close>, a slab of \<open>n\<close> atoms;
  \<open>add_adsorbate_geometry\<close> places one more atom; \<open>bfgs_run\<close> is the relaxation
  \<open>BFGS(atoms).run(fmax=0.01)\<close> with the slab atoms fixed, taken to return;
  \<open>cell01\<close> reads \<open>cell[0, 1]\<close>.
\<close>

record 'g ads_env =
  fcc111_geometry :: "string \<Rightarrow> nat \<Rightarrow> real \<Rightarrow> 'g"
  add_adsorbate_geometry :: "'g \<Rightarrow> string \<Rightarrow> 'g"
  bfgs_run :: "string list \<Rightarrow> 'g \<Rightarrow> 'g"
  cell01 :: "'g \<Rightarrow> real"

text \<open>
  \<^verbatim>\<open>
  def run(symb, a, n, ads):
      atoms = fcc111(symb, (1, 1, n), a=a)
      add_adsorbate(atoms, ads, height=1.0, position='fcc')
      fixed = list(range(len(atoms) - 1))
      atoms.constraints = [FixAtoms(indices=fixed)]
      atoms.calc = EMT()
      opt = BFGS(atoms, logfile=None)
      opt.run(fmax=0.01)
      return atoms
  \<close>
\<close>

definition fcc111 :: "'g ads_env \<Rightarrow> string \<Rightarrow> nat \<Rightarrow> real \<Rightarrow> 'g atoms" where
  "fcc111 env symb n a = \<lparr>symbols = replicate n symb, geometry = fcc111_geometry env symb n a\<rparr>"

definition add_adsorbate :: "'g ads_env \<Rightarrow> 'g atoms \<Rightarrow> string \<Rightarrow> 'g atoms" where
  "add_adsorbate env atoms ads =
     \<lparr>symbols = symbols atoms @ [ads],
      geometry = add_adsorbate_geometry env (geometry atoms) ads\<rparr>"

definition run :: "'g ads_env \<Rightarrow> string \<Rightarrow> real \<Rightarrow> nat \<Rightarrow> string \<Rightarrow> 'g atoms" where
  "run env symb a n ads =
     (let atoms = add_adsorbate env (fcc111 env symb n a) ads
      in atoms\<lparr>geometry := bfgs_run env (symbols atoms) (geometry atoms)\<rparr>)"

text \<open>
  \<^verbatim>\<open>
  def run(symb, a, n):
      atoms = fcc111(symb, (1, 1, n), a=a)
      atoms.calc = EMT()
      atoms.get_forces()
      return atoms
  \<close>
\<close>

definition run_clean :: "'g ads_env \<Rightarrow> string \<Rightarrow> real \<Rightarrow> nat \<Rightarrow> 'g atoms" where
  "run_clean env symb a n = fcc111 env symb n a"

text \<open>The keyword arguments \<open>layers=n, surf=symb, ads=ads\<close>.\<close>

definition keys :: "nat \<Rightarrow> string \<Rightarrow> string \<Rightarrow> (string \<times> val) list" where
  "keys n symb ads = [(''layers'', IntV (int n)), (''surf'', Str symb), (''ads'', Str ads)]"

text \<open>
  The state of a script is the database \<open>ads.db\<close> together with the trace of the calls
  of \<open>run\<close> made so far. The body of the innermost loop of the adsorbate script:
  \<^verbatim>\<open>
  id = db2.reserve(layers=n, surf=symb, ads=ads)
  if id is not None:
      atoms = run(symb, a, n, ads)
      db2.write(atoms, layers=n, surf=symb, ads=ads)
      del db2[id]
  \<close>
\<close>

type_synonym 'g script_state = "'g database \<times> (string \<times> real \<times> nat \<times> string) list"

definition ads_step ::
  "'g ads_env \<Rightarrow> string \<Rightarrow> real \<Rightarrow> nat \<Rightarrow> string \<Rightarrow> 'g script_state \<Rightarrow> 'g script_state" where
  "ads_step env symb a n ads st =
     (case st of (db2, trace) \<Rightarrow>
        (case reserve (keys n symb ads) db2 of
           (None, db2') \<Rightarrow> (db2', trace)
         | (Some i, db2') \<Rightarrow>
             (let atoms = run env symb a n ads
              in (delete i (snd (db_write atoms (keys n symb ads) db2')),
                  trace @ [(symb, a, n, ads)]))))"

text \<open>
  The body of the innermost loop of the clean-slab script:
  \<^verbatim>\<open>
  id = db2.reserve(layers=n, surf=symb, ads='clean')
  if id is not None:
      atoms = run(symb, a, n)
      db2.write(atoms, id=id, layers=n, surf=symb, ads='clean')
  \<close>
\<close>

definition clean_step ::
  "'g ads_env \<Rightarrow> string \<Rightarrow> real \<Rightarrow> nat \<Rightarrow> 'g script_state \<Rightarrow> 'g script_state" where
  "clean_step env symb a n st =
     (case st of (db2, trace) \<Rightarrow>
        (case reserve (keys n symb ''clean'') db2 of
           (None, db2') \<Rightarrow> (db2', trace)
         | (Some i, db2') \<Rightarrow>
             (let atoms = run_clean env symb a n
              in (write_id atoms i (keys n symb ''clean'') db2',
                  trace @ [(symb, a, n, ''clean'')]))))"

text \<open>
  The loops around the two bodies. A row of \<open>bulk.db\<close> gives \<open>a = row.cell[0, 1] * 2\<close>
  and \<open>symb = row.symbols[0]\<close>; the latter raises on a row without atoms.
  \<^verbatim>\<open>
  for row in db1.select():
      a = row.cell[0, 1] * 2
      symb = row.symbols[0]
      for n in [1, 2, 3]:
          for ads in 'CNO':
              (body)
  \<close>
\<close>

definition row_params :: "'g ads_env \<Rightarrow> 'g db_row \<Rightarrow> py_error + (string \<times> real)" where
  "row_params env row =
     (case row_atoms row of
        None \<Rightarrow> Inl IndexError
      | Some ats \<Rightarrow>
          (case symbols ats of
             [] \<Rightarrow> Inl IndexError
           | symb # _ \<Rightarrow> Inr (symb, cell01 env (geometry ats) * 2)))"

definition ads_row :: "'g ads_env \<Rightarrow> 'g db_row \<Rightarrow> 'g script_state \<Rightarrow> py_error + 'g script_state" where
  "ads_row env row st =
     (case row_params env row of
        Inl err \<Rightarrow> Inl err
      | Inr (symb, a) \<Rightarrow>
          Inr (fold (\<lambda>(n, ads). ads_step env symb a n ads)
                 (List.product [1, 2, 3] [''C'', ''N'', ''O'']) st))"

fun ads_script :: "'g ads_env \<Rightarrow> 'g db_row list \<Rightarrow> 'g script_state \<Rightarrow> py_error + 'g script_state" where
  "ads_script env [] st = Inr st"
| "ads_script env (row # db1) st =
     (case ads_row env row st of
        Inl err \<Rightarrow> Inl err
      | Inr st' \<Rightarrow> ads_script env db1 st')"

definition clean_row ::
  "'g ads_env \<Rightarrow> 'g db_row \<Rightarrow> 'g script_state \<Rightarrow> py_error + 'g script_state" where
  "clean_row env row st =
     (case row_params env row of
        Inl err \<Rightarrow> Inl err
      | Inr (symb, a) \<Rightarrow> Inr (fold (\<lambda>n. clean_step env symb a n) [1, 2, 3] st))"

fun clean_script ::
  "'g ads_env \<Rightarrow> 'g db_row list \<Rightarrow> 'g script_state \<Rightarrow> py_error + 'g script_state" where
  "clean_script env [] st = Inr st"
| "clean_script env (row # db1) st =
     (case clean_row env row st of
        Inl err \<Rightarrow> Inl err
      | Inr st' \<Rightarrow> clean_script env db1 st')"

section \<open>Properties of entries and stores\<close>

text \<open>
  The reference data suffices to evaluate a candidate: one symbol per site of the model
  structure, and a reference row for every metal.
\<close>

definition evaluable :: "ref_db \<Rightarrow> string list \<Rightarrow> bool" where
  "evaluable db atoms_string =
     (length atoms_string = fcc_natoms \<and> list_all (\<lambda>m. db m \<noteq> None) atoms_string)"


text \<open>
  A store that has grown from another by appending entries that all satisfy \<open>Q\<close>.
\<close>

definition extends_by :: "('a entry \<Rightarrow> bool) \<Rightarrow> 'a store \<Rightarrow> 'a store \<Rightarrow> bool" where
  "extends_by Q S S' = (\<exists>ys. S' = S @ ys \<and> list_all Q ys)"

text \<open>
  An entry as the store operations write it for a given in-memory candidate.
\<close>

definition unrelaxed_step_of :: "'a candidate \<Rightarrow> 'a entry \<Rightarrow> bool" where
  "unrelaxed_step_of a e =
     (\<not> relaxed e \<and> e_struct e = struct a \<and> e_kvp e = key_value_pairs a)"

definition relaxed_step_of :: "'a candidate \<Rightarrow> 'a entry \<Rightarrow> bool" where
  "relaxed_step_of a e =
     (relaxed e \<and> e_struct e = struct a \<and> e_kvp e = key_value_pairs a)"

text \<open>
  An entry carries a raw score exactly when it is a relaxed step.
\<close>

definition fitness_only_when_relaxed :: "'a entry \<Rightarrow> bool" where
  "fitness_only_when_relaxed e = (relaxed e = (e_kvp e ''raw_score'' \<noteq> None))"

text \<open>
  The variation operators hand over candidates without a raw score: a paired child has
  none, and a mutated candidate has none when the candidate it was made from has none.
\<close>

definition unscored_offspring :: "('a, 'p) ga_env \<Rightarrow> bool" where
  "unscored_offspring env =
     ((\<forall>i a1 a2 a3 d. pairing env i a1 a2 = (Some a3, d) \<longrightarrow>
          key_value_pairs a3 ''raw_score'' = None)
    \<and> (\<forall>i a am d. key_value_pairs a ''raw_score'' = None \<longrightarrow>
          mutations env i a = (Some am, d) \<longrightarrow> key_value_pairs am ''raw_score'' = None))"

definition alloy_unscored_offspring :: "'p alloy_env \<Rightarrow> bool" where
  "alloy_unscored_offspring aenv =
     (\<forall>g i a1 a2 a3 d. get_new_individual aenv g i a1 a2 = (Some a3, d) \<longrightarrow>
          key_value_pairs a3 ''raw_score'' = None)"

text \<open>
  A relaxed entry of the pool GA carries minus the potential energy of its structure; a
  relaxed entry of the alloy GA carries minus its heat of formation.
\<close>

definition scored :: "('a, 'p) ga_env \<Rightarrow> 'a entry \<Rightarrow> bool" where
  "scored env e =
     (relaxed e \<longrightarrow> e_kvp e ''raw_score'' = Some (Num (- emt_energy env (e_struct e))))"

definition hof_scored :: "string list entry \<Rightarrow> bool" where
  "hof_scored e =
     (relaxed e \<longrightarrow>
        (case e_kvp e ''hof'' of
           Some (Num hof) \<Rightarrow> e_kvp e ''raw_score'' = Some (Num (- hof))
         | _ \<Rightarrow> False))"

text \<open>
  The in-memory candidate that the store hands out for a stored step, and the fact that a
  candidate is held by the store as an unrelaxed step.
\<close>

definition candidate_of :: "'a entry \<Rightarrow> 'a candidate" where
  "candidate_of e = \<lparr>struct = e_struct e, confid = Some (gaid e), key_value_pairs = e_kvp e\<rparr>"

definition stored_unrelaxed :: "'a store \<Rightarrow> 'a candidate \<Rightarrow> bool" where
  "stored_unrelaxed S a = (\<exists>u \<in> set S. \<not> relaxed u \<and> candidate_of u = a)"

text \<open>
  A store that has grown from another by appending entries one after the other, each of
  which satisfies \<open>Q\<close> with respect to the store it is appended to.
\<close>

fun appended :: "('a store \<Rightarrow> 'a entry \<Rightarrow> bool) \<Rightarrow> 'a store \<Rightarrow> 'a entry list \<Rightarrow> bool" where
  "appended Q S [] = True"
| "appended Q S (e # es) = (Q S e \<and> appended Q (S @ [e]) es)"

definition grows_by :: "('a store \<Rightarrow> 'a entry \<Rightarrow> bool) \<Rightarrow> 'a store \<Rightarrow> 'a store \<Rightarrow> bool" where
  "grows_by Q S S' = (take (length S) S' = S \<and> appended Q S (drop (length S) S'))"

text \<open>
  A relaxed step of the pool GA, appended to the store \<open>S\<close>: the store holds an unrelaxed
  step of the same candidate, the relaxed step stores the structure that the BFGS
  relaxation returns for it, and the raw score is minus the potential energy of that
  relaxed structure.
\<close>

definition bfgs_scored :: "('a, 'p) ga_env \<Rightarrow> 'a store \<Rightarrow> 'a entry \<Rightarrow> bool" where
  "bfgs_scored env S r =
     (relaxed r \<longrightarrow>
        (\<exists>u \<in> set S. \<not> relaxed u \<and> gaid u = gaid r
           \<and> e_struct r = bfgs env (e_struct u)
           \<and> e_kvp r ''raw_score'' = Some (Num (- emt_energy env (bfgs env (e_struct u))))))"

text \<open>
  A relaxed step of the alloy GA, appended to the store \<open>S\<close>: the store holds an
  unrelaxed step of the same candidate, and the relaxed step stores what the function
  \<open>relax\<close> returns for it.
\<close>

definition relax_scored ::
  "'p alloy_env \<Rightarrow> ref_db \<Rightarrow> string list store \<Rightarrow> string list entry \<Rightarrow> bool" where
  "relax_scored env db S r =
     (relaxed r \<longrightarrow>
        (\<exists>u \<in> set S. \<not> relaxed u \<and> gaid u = gaid r
           \<and> (case relax env (candidate_of u) db of
                Inl err \<Rightarrow> False
              | Inr a' \<Rightarrow> e_struct r = struct a' \<and> e_kvp r = key_value_pairs a')))"

section \<open>Example inputs\<close>

text \<open>
  Concrete collaborators and stores on which the theorems below are exercised.
\<close>

definition example_ga_env :: "(nat, nat candidate list) ga_env" where
  "example_ga_env =
     \<lparr>pick_unrelaxed = (\<lambda>S. 0),
      bfgs = (\<lambda>s. s + 1),
      emt_energy = (\<lambda>s. - real s),
      get_two_candidates = (\<lambda>i P. case P of a # b # _ \<Rightarrow> Some (a, b) | _ \<Rightarrow> None),
      pairing = (\<lambda>i a1 a2.
        (Some \<lparr>struct = struct a1 + struct a2, confid = None, key_value_pairs = Map.empty\<rparr>,
         ''pairing'')),
      random = (\<lambda>i. 0.1),
      mutations = (\<lambda>i a. (None, ''mutation'')),
      population_update = (\<lambda>S P. get_all_relaxed_candidates S)\<rparr>"

definition example_mutating_env :: "(nat, nat candidate list) ga_env" where
  "example_mutating_env =
     example_ga_env\<lparr>mutations := \<lambda>i a. (Some (a\<lparr>struct := struct a * 2\<rparr>), ''mutation'')\<rparr>"

definition example_store :: "nat store" where
  "example_store =
     [\<lparr>gaid = 1, relaxed = False, origin = ''StartingCandidate'', e_struct = 10,
       e_kvp = Map.empty\<rparr>,
      \<lparr>gaid = 2, relaxed = False, origin = ''StartingCandidate'', e_struct = 20,
       e_kvp = Map.empty\<rparr>]"

definition example_population :: "nat candidate list" where
  "example_population =
     [\<lparr>struct = 11, confid = Some 1, key_value_pairs = [''raw_score'' \<mapsto> Num 11]\<rparr>,
      \<lparr>struct = 21, confid = Some 2, key_value_pairs = [''raw_score'' \<mapsto> Num 21]\<rparr>]"

definition example_alloy_env :: "string list candidate list alloy_env" where
  "example_alloy_env =
     \<lparr>alloy_pick = (\<lambda>S. 0),
      emt_fcc = (\<lambda>syms c. (c - 4)\<^sup>2),
      cbrt = root 3,
      eos_fit = (\<lambda>volumes energies. (volumes ! 4, energies ! 4, 0)),
      alloy_get_two_candidates = (\<lambda>g i P. case P of a # b # _ \<Rightarrow> Some (a, b) | _ \<Rightarrow> None),
      get_new_individual = (\<lambda>g i a1 a2.
        (Some \<lparr>struct = take 2 (struct a1) @ drop 2 (struct a2), confid = None,
               key_value_pairs = Map.empty\<rparr>, ''crossover'')),
      converged = (\<lambda>P. 3 \<le> length P),
      alloy_population_update = (\<lambda>S P. get_all_relaxed_candidates S)\<rparr>"

definition example_refs :: ref_db where
  "example_refs =
     [''Cu'' \<mapsto> \<lparr>latticeconstant = 3.6, energy_per_atom = - 0.01\<rparr>,
      ''Ni'' \<mapsto> \<lparr>latticeconstant = 3.5, energy_per_atom = - 0.02\<rparr>]"

definition example_alloy_store :: "string list store" where
  "example_alloy_store =
     [\<lparr>gaid = 1, relaxed = False, origin = ''StartingCandidate'',
       e_struct = [''Cu'', ''Cu'', ''Ni'', ''Ni''], e_kvp = Map.empty\<rparr>,
      \<lparr>gaid = 2, relaxed = False, origin = ''StartingCandidate'',
       e_struct = [''Ni'', ''Cu'', ''Cu'', ''Cu''], e_kvp = Map.empty\<rparr>]"


definition example_alloy_population :: "string list candidate list" where
  "example_alloy_population =
     [\<lparr>struct = [''Cu'', ''Cu'', ''Cu'', ''Cu''], confid = Some 1,
       key_value_pairs = [''raw_score'' \<mapsto> Num 0]\<rparr>,
      \<lparr>struct = [''Ni'', ''Ni'', ''Ni'', ''Ni''], confid = Some 2,
       key_value_pairs = [''raw_score'' \<mapsto> Num 0]\<rparr>]"

definition example_ads_env :: "unit ads_env" where
  "example_ads_env =
     \<lparr>fcc111_geometry = (\<lambda>symb n a. ()), add_adsorbate_geometry = (\<lambda>g ads. ()),
      bfgs_run = (\<lambda>syms g. g), cell01 = (\<lambda>g. 1.8)\<rparr>"

definition example_bulk_row :: "unit db_row" where
  "example_bulk_row =
     \<lparr>row_id = 1, row_atoms = Some \<lparr>symbols = [''Cu''], geometry = ()\<rparr>,
      row_kvp = Map.empty\<rparr>"

definition empty_db :: "unit database" where
  "empty_db = \<lparr>rows = [], next_id = 1\<rparr>"

definition example_ads_db :: "unit database" where
  "example_ads_db =
     \<lparr>rows =
        [\<lparr>row_id = 2, row_atoms = Some \<lparr>symbols = [''Cu'', ''C''], geometry = ()\<rparr>,
          row_kvp = map_of (keys 1 ''Cu'' ''C'')\<rparr>,
         \<lparr>row_id = 3, row_atoms = Some \<lparr>symbols = [''Cu''], geometry = ()\<rparr>,
          row_kvp = map_of (keys 1 ''Cu'' ''clean'')\<rparr>],
      next_id = 4\<rparr>"

section \<open>Termination of the relax-all loops\<close>

lemma relax_all_zero:
  "\<exists>S'. relax_all env S = Inr S' \<and> get_number_of_unrelaxed_candidates S' = 0"
proof (induction env S rule: relax_all.induct)
  case (1 env S)
  show ?case
  proof (cases "0 < get_number_of_unrelaxed_candidates S")
    case True
    from relax_one_succeeds [OF True] obtain S1 where S1: "relax_one env S = Inr S1" by blast
    from "1.IH" [OF True S1] True S1 show ?thesis
      by (subst relax_all.simps) simp
  next
    case False
    then show ?thesis by (subst relax_all.simps) simp
  qed
qed

lemma ref_totals_succeeds:
  assumes "\<forall>m \<in> set ms. db m \<noteq> None"
  shows "\<exists>r. ref_totals db atoms_string ms acc = Inr r"
  using assms
  by (induction ms arbitrary: acc) (auto simp: Let_def)

lemma relax_succeeds:
  assumes "evaluable db (struct a)"
  shows "\<exists>a'. relax env a db = Inr a'"
proof -
  from assms have len: "length (struct a) = fcc_natoms"
    and "\<forall>m \<in> set (remdups (struct a)). db m \<noteq> None"
    by (auto simp: evaluable_def list_all_iff)
  from ref_totals_succeeds [OF this(2)]
  obtain r where "ref_totals db (struct a) (remdups (struct a)) (0, 0) = Inr r" by blast
  with len show ?thesis
    unfolding relax_def Let_def by (simp split: prod.splits)
qed

lemma unrelaxed_entries_subset:
  "e \<in> set (unrelaxed_entries S) \<Longrightarrow> e \<in> set S \<and> \<not> relaxed e"
  by (simp add: unrelaxed_entries_def)

lemma alloy_relax_one_succeeds:
  assumes "0 < get_number_of_unrelaxed_candidates S"
    and "\<forall>e \<in> set S. \<not> relaxed e \<longrightarrow> evaluable db (e_struct e)"
  shows "\<exists>S'. alloy_relax_one env db S = Inr S'
            \<and> (\<forall>e \<in> set S'. \<not> relaxed e \<longrightarrow> evaluable db (e_struct e))"
proof -
  from assms(1) have "unrelaxed_entries S \<noteq> []"
    unfolding get_number_of_unrelaxed_candidates_def by auto
  from get_an_unrelaxed_candidate_nonempty [OF this, of "alloy_pick env"]
  obtain a g where a: "get_an_unrelaxed_candidate (alloy_pick env) S = Inr a"
    and g: "confid a = Some g" by blast
  from get_an_unrelaxed_candidate_Inr [OF a] obtain e where
    e: "e \<in> set (unrelaxed_entries S)" and ae: "struct a = e_struct e"
    by auto
  from unrelaxed_entries_subset [OF e] assms(2) ae have "evaluable db (struct a)" by simp
  from relax_succeeds [OF this] obtain a' where a': "relax env a db = Inr a'" by blast
  from relax_Inr [OF a'] g have "confid a' = Some g" by auto
  then have "add_relaxed_step S a' = Inr (S @ [\<lparr>gaid = g, relaxed = True, origin = [],
      e_struct = struct a', e_kvp = key_value_pairs a'\<rparr>])"
    by (simp add: add_relaxed_step_def)
  with a a' assms(2) show ?thesis by (simp add: alloy_relax_one_def)
qed


lemma alloy_relax_all_completes:
  assumes "\<forall>e \<in> set S. \<not> relaxed e \<longrightarrow> evaluable db (e_struct e)"
  shows "\<exists>S'. alloy_relax_all env db S = Inr S'"
  using assms
proof (induction env db S rule: alloy_relax_all.induct)
  case (1 env db S)
  show ?case
  proof (cases "0 < get_number_of_unrelaxed_candidates S")
    case True
    from alloy_relax_one_succeeds [OF True "1.prems"] obtain S1 where
      S1: "alloy_relax_one env db S = Inr S1"
      and ev: "\<forall>e \<in> set S1. \<not> relaxed e \<longrightarrow> evaluable db (e_struct e)" by blast
    from "1.IH" [OF True S1 ev] True S1 show ?thesis
      by (subst alloy_relax_all.simps) simp
  next
    case False
    then show ?thesis by (subst alloy_relax_all.simps) simp
  qed
qed




lemma example_alloy_store_evaluable:
  "\<forall>e \<in> set example_alloy_store. \<not> relaxed e \<longrightarrow> evaluable example_refs (e_struct e)"
  by (simp add: example_alloy_store_def evaluable_def example_refs_def fcc_natoms_def)



section \<open>What the loops append\<close>

lemma extends_by_refl: "extends_by Q S S"
  by (simp add: extends_by_def)

lemma extends_by_trans:
  "extends_by Q S S1 \<Longrightarrow> extends_by Q S1 S2 \<Longrightarrow> extends_by Q S S2"
  by (auto simp: extends_by_def)

lemma extends_by_list_all:
  "extends_by Q S S' \<Longrightarrow> list_all Q S \<Longrightarrow> list_all Q S'"
  by (auto simp: extends_by_def)

lemma extends_by_prefix: "extends_by Q S S' \<Longrightarrow> prefix S S'"
  by (auto simp: extends_by_def)

lemma add_unrelaxed_candidate_extends:
  assumes "add_unrelaxed_candidate S a d = (S1, a')" and "\<forall>e. unrelaxed_step_of a e \<longrightarrow> Q e"
  shows "extends_by Q S S1 \<and> a' = a\<lparr>confid := Some (Suc (length S))\<rparr>"
  using assms
  by (auto simp: add_unrelaxed_candidate_def Let_def extends_by_def unrelaxed_step_of_def)

lemma add_unrelaxed_step_extends:
  assumes "add_unrelaxed_step S a d = Inr S1" and "\<forall>e. unrelaxed_step_of a e \<longrightarrow> Q e"
  shows "extends_by Q S S1"
  using assms
  by (auto simp: add_unrelaxed_step_def extends_by_def unrelaxed_step_of_def split: option.splits)

lemma add_relaxed_step_extends:
  assumes "add_relaxed_step S a = Inr S1" and "\<forall>e. relaxed_step_of a e \<longrightarrow> Q e"
  shows "extends_by Q S S1"
  using assms
  by (auto simp: add_relaxed_step_def extends_by_def relaxed_step_of_def split: option.splits)

lemma unrelaxed_step_of_confid [simp]:
  "unrelaxed_step_of (a\<lparr>confid := c\<rparr>) e = unrelaxed_step_of a e"
  by (simp add: unrelaxed_step_of_def)

lemma relax_one_extends:
  assumes "relax_one env S = Inr S'"
    and R: "\<forall>a e. relaxed_step_of (relax_and_score env a) e \<longrightarrow> Q e"
  shows "extends_by Q S S'"
proof -
  from assms(1) obtain a where "add_relaxed_step S (relax_and_score env a) = Inr S'"
    by (auto simp: relax_one_def split: sum.splits)
  moreover from R have "\<forall>e. relaxed_step_of (relax_and_score env a) e \<longrightarrow> Q e" by blast
  ultimately show ?thesis by (rule add_relaxed_step_extends)
qed

lemma relax_all_extends:
  assumes "relax_all env S = Inr S'"
    and "\<forall>a e. relaxed_step_of (relax_and_score env a) e \<longrightarrow> Q e"
  shows "extends_by Q S S'"
  using assms
proof (induction env S rule: relax_all.induct)
  case (1 env S)
  note R = "1.prems"(2)
  show ?case
  proof (cases "0 < get_number_of_unrelaxed_candidates S")
    case True
    with "1.prems"(1) obtain S1 where S1: "relax_one env S = Inr S1"
      and rest: "relax_all env S1 = Inr S'"
      by (subst (asm) relax_all.simps) (auto split: sum.splits)
    from relax_one_extends [OF S1 R] have "extends_by Q S S1" .
    moreover from "1.IH" [OF True S1 rest R] have "extends_by Q S1 S'" .
    ultimately show ?thesis by (rule extends_by_trans)
  next
    case False
    with "1.prems"(1) have "S' = S" by (subst (asm) relax_all.simps) simp
    then show ?thesis by (simp add: extends_by_refl)
  qed
qed

lemma mutate_extends:
  assumes "mutate env i S a = Inr (S', a')"
    and U2: "\<forall>am d e. mutations env i a = (Some am, d) \<longrightarrow> unrelaxed_step_of am e \<longrightarrow> Q e"
  shows "extends_by Q S S'"
proof (cases "random env i < mutation_probability")
  case True
  show ?thesis
  proof (cases "mutations env i a")
    case (Pair r d)
    show ?thesis
    proof (cases r)
      case None
      with assms(1) True Pair show ?thesis by (simp add: mutate_def extends_by_refl)
    next
      case (Some am)
      with assms(1) True Pair have "add_unrelaxed_step S am d = Inr S'"
        by (auto simp: mutate_def split: sum.splits)
      moreover from Pair Some have "mutations env i a = (Some am, d)" by simp
      ultimately show ?thesis using U2 add_unrelaxed_step_extends [of S am d S' Q] by blast
    qed
  qed
next
  case False
  with assms(1) show ?thesis by (simp add: mutate_def extends_by_refl)
qed

lemma ga_iteration_extends:
  assumes it: "ga_iteration env i (S, P) = Inr (S', P')"
    and R: "\<forall>a e. relaxed_step_of (relax_and_score env a) e \<longrightarrow> Q e"
    and U1: "\<forall>a1 a2 a3 d e. pairing env i a1 a2 = (Some a3, d) \<longrightarrow> unrelaxed_step_of a3 e \<longrightarrow> Q e"
    and U2: "\<forall>a1 a2 a3 d g am dm e. pairing env i a1 a2 = (Some a3, d) \<longrightarrow>
               mutations env i (a3\<lparr>confid := Some g\<rparr>) = (Some am, dm) \<longrightarrow>
               unrelaxed_step_of am e \<longrightarrow> Q e"
  shows "extends_by Q S S'"
proof -
  from it obtain a1 a2 where sel: "get_two_candidates env i P = Some (a1, a2)"
    by (auto simp: ga_iteration_def split: option.splits)
  obtain r d where pr: "pairing env i a1 a2 = (r, d)" by (cases "pairing env i a1 a2")
  show ?thesis
  proof (cases r)
    case None
    with it sel pr show ?thesis by (simp add: ga_iteration_def extends_by_refl)
  next
    case (Some a3)
    obtain S1 b where au: "add_unrelaxed_candidate S a3 d = (S1, b)"
      by (cases "add_unrelaxed_candidate S a3 d")
    from it sel pr Some au obtain S2 c where mu: "mutate env i S1 b = Inr (S2, c)"
      and ar: "add_relaxed_step S2 (relax_and_score env c) = Inr S'"
      by (auto simp: ga_iteration_def split: sum.splits)
    from pr Some have pa: "pairing env i a1 a2 = (Some a3, d)" by simp
    with U1 have "\<forall>e. unrelaxed_step_of a3 e \<longrightarrow> Q e" by blast
    from add_unrelaxed_candidate_extends [OF au this]
    have "extends_by Q S S1" and b: "b = a3\<lparr>confid := Some (Suc (length S))\<rparr>" by blast+
    moreover from U2 pa
    have "\<forall>am dm e. mutations env i b = (Some am, dm) \<longrightarrow> unrelaxed_step_of am e \<longrightarrow> Q e"
      unfolding b by blast
    from mutate_extends [OF mu this] have "extends_by Q S1 S2" .
    moreover from R have "\<forall>e. relaxed_step_of (relax_and_score env c) e \<longrightarrow> Q e" by blast
    from add_relaxed_step_extends [OF ar this] have "extends_by Q S2 S'" .
    ultimately show ?thesis by (blast intro: extends_by_trans)
  qed
qed

lemma ga_loop_extends:
  assumes lp: "ga_loop env is (S, P) = Inr (S', P')"
    and R: "\<forall>a e. relaxed_step_of (relax_and_score env a) e \<longrightarrow> Q e"
    and U1: "\<forall>i a1 a2 a3 d e. pairing env i a1 a2 = (Some a3, d) \<longrightarrow> unrelaxed_step_of a3 e \<longrightarrow> Q e"
    and U2: "\<forall>i a1 a2 a3 d g am dm e. pairing env i a1 a2 = (Some a3, d) \<longrightarrow>
               mutations env i (a3\<lparr>confid := Some g\<rparr>) = (Some am, dm) \<longrightarrow>
               unrelaxed_step_of am e \<longrightarrow> Q e"
  shows "extends_by Q S S'"
  using lp
proof (induction "is" arbitrary: S P)
  case Nil
  then show ?case by (simp add: extends_by_refl)
next
  case (Cons i "is")
  from Cons.prems obtain S1 P1 where it: "ga_iteration env i (S, P) = Inr (S1, P1)"
    and rest: "ga_loop env is (S1, P1) = Inr (S', P')"
    by (auto split: sum.splits)
  from U1 have u1: "\<forall>a1 a2 a3 d e. pairing env i a1 a2 = (Some a3, d) \<longrightarrow> unrelaxed_step_of a3 e \<longrightarrow> Q e"
    by blast
  from U2 have u2: "\<forall>a1 a2 a3 d g am dm e. pairing env i a1 a2 = (Some a3, d) \<longrightarrow>
               mutations env i (a3\<lparr>confid := Some g\<rparr>) = (Some am, dm) \<longrightarrow>
               unrelaxed_step_of am e \<longrightarrow> Q e"
    by blast
  from ga_iteration_extends [OF it R u1 u2] have "extends_by Q S S1" .
  moreover from Cons.IH [OF rest] have "extends_by Q S1 S'" .
  ultimately show ?case by (rule extends_by_trans)
qed

lemma ga_main_extends:
  assumes mn: "ga_main env Population S = Inr (S', P')"
    and R: "\<forall>a e. relaxed_step_of (relax_and_score env a) e \<longrightarrow> Q e"
    and U1: "\<forall>i a1 a2 a3 d e. pairing env i a1 a2 = (Some a3, d) \<longrightarrow> unrelaxed_step_of a3 e \<longrightarrow> Q e"
    and U2: "\<forall>i a1 a2 a3 d g am dm e. pairing env i a1 a2 = (Some a3, d) \<longrightarrow>
               mutations env i (a3\<lparr>confid := Some g\<rparr>) = (Some am, dm) \<longrightarrow>
               unrelaxed_step_of am e \<longrightarrow> Q e"
  shows "extends_by Q S S'"
proof -
  from mn obtain S1 where ra: "relax_all env S = Inr S1"
    and lp: "ga_loop env [0..<n_to_test] (S1, Population S1) = Inr (S', P')"
    by (auto simp: ga_main_def split: sum.splits)
  from relax_all_extends [OF ra R] have "extends_by Q S S1" .
  moreover from ga_loop_extends [OF lp R U1 U2] have "extends_by Q S1 S'" .
  ultimately show ?thesis by (rule extends_by_trans)
qed

lemma alloy_relax_one_extends:
  assumes "alloy_relax_one env db S = Inr S'"
    and R: "\<forall>a a' e. relax env a db = Inr a' \<longrightarrow> relaxed_step_of a' e \<longrightarrow> Q e"
  shows "extends_by Q S S'"
proof -
  from assms(1) obtain a a' where "relax env a db = Inr a'"
    and ar: "add_relaxed_step S a' = Inr S'"
    by (auto simp: alloy_relax_one_def split: sum.splits)
  with R have "\<forall>e. relaxed_step_of a' e \<longrightarrow> Q e" by blast
  with ar show ?thesis by (rule add_relaxed_step_extends)
qed

lemma alloy_relax_all_extends:
  assumes "alloy_relax_all env db S = Inr S'"
    and "\<forall>a a' e. relax env a db = Inr a' \<longrightarrow> relaxed_step_of a' e \<longrightarrow> Q e"
  shows "extends_by Q S S'"
  using assms
proof (induction env db S rule: alloy_relax_all.induct)
  case (1 env db S)
  note R = "1.prems"(2)
  show ?case
  proof (cases "0 < get_number_of_unrelaxed_candidates S")
    case True
    with "1.prems"(1) obtain S1 where S1: "alloy_relax_one env db S = Inr S1"
      and rest: "alloy_relax_all env db S1 = Inr S'"
      by (subst (asm) alloy_relax_all.simps) (auto split: sum.splits)
    from alloy_relax_one_extends [OF S1 R] have "extends_by Q S S1" .
    moreover from "1.IH" [OF True S1 rest R] have "extends_by Q S1 S'" .
    ultimately show ?thesis by (rule extends_by_trans)
  next
    case False
    with "1.prems"(1) have "S' = S" by (subst (asm) alloy_relax_all.simps) simp
    then show ?thesis by (simp add: extends_by_refl)
  qed
qed

lemma alloy_iteration_extends:
  assumes it: "alloy_iteration env db g i (S, P) = Inr (S', P')"
    and R: "\<forall>a a' e. relax env a db = Inr a' \<longrightarrow> relaxed_step_of a' e \<longrightarrow> Q e"
    and U: "\<forall>g i a1 a2 a3 d e. get_new_individual env g i a1 a2 = (Some a3, d) \<longrightarrow>
              unrelaxed_step_of a3 e \<longrightarrow> Q e"
  shows "extends_by Q S S' \<and> P' = P"
proof -
  from it obtain a1 a2 where sel: "alloy_get_two_candidates env g i P = Some (a1, a2)"
    by (auto simp: alloy_iteration_def split: option.splits)
  obtain r d where pr: "get_new_individual env g i a1 a2 = (r, d)"
    by (cases "get_new_individual env g i a1 a2")
  from it sel pr obtain a3 where Some: "r = Some a3"
    by (cases r) (auto simp: alloy_iteration_def)
  obtain S1 b where au: "add_unrelaxed_candidate S a3 d = (S1, b)"
    by (cases "add_unrelaxed_candidate S a3 d")
  from it sel pr Some au obtain c where rl: "relax env b db = Inr c"
    and ar: "add_relaxed_step S1 c = Inr S'" and P: "P' = P"
    by (auto simp: alloy_iteration_def split: sum.splits)
  from pr Some U have "\<forall>e. unrelaxed_step_of a3 e \<longrightarrow> Q e" by blast
  from add_unrelaxed_candidate_extends [OF au this] have "extends_by Q S S1" by blast
  moreover from R rl have "\<forall>e. relaxed_step_of c e \<longrightarrow> Q e" by blast
  from add_relaxed_step_extends [OF ar this] have "extends_by Q S1 S'" .
  ultimately show ?thesis using P by (blast intro: extends_by_trans)
qed

lemma alloy_inner_loop_extends:
  assumes lp: "alloy_inner_loop env db g is (S, P) = Inr (S', P')"
    and R: "\<forall>a a' e. relax env a db = Inr a' \<longrightarrow> relaxed_step_of a' e \<longrightarrow> Q e"
    and U: "\<forall>g i a1 a2 a3 d e. get_new_individual env g i a1 a2 = (Some a3, d) \<longrightarrow>
              unrelaxed_step_of a3 e \<longrightarrow> Q e"
  shows "extends_by Q S S'"
  using lp
proof (induction "is" arbitrary: S P)
  case Nil
  then show ?case by (simp add: extends_by_refl)
next
  case (Cons i "is")
  from Cons.prems obtain S1 P1 where it: "alloy_iteration env db g i (S, P) = Inr (S1, P1)"
    and rest: "alloy_inner_loop env db g is (S1, P1) = Inr (S', P')"
    by (auto split: sum.splits)
  from alloy_iteration_extends [OF it R U] have "extends_by Q S S1" by blast
  moreover from Cons.IH [OF rest] have "extends_by Q S1 S'" .
  ultimately show ?case by (rule extends_by_trans)
qed

lemma alloy_generations_extends:
  assumes lp: "alloy_generations env db psize gs (S, P) = Inr (S', P')"
    and R: "\<forall>a a' e. relax env a db = Inr a' \<longrightarrow> relaxed_step_of a' e \<longrightarrow> Q e"
    and U: "\<forall>g i a1 a2 a3 d e. get_new_individual env g i a1 a2 = (Some a3, d) \<longrightarrow>
              unrelaxed_step_of a3 e \<longrightarrow> Q e"
  shows "extends_by Q S S'"
  using lp
proof (induction gs arbitrary: S P)
  case Nil
  then show ?case by (simp add: extends_by_refl)
next
  case (Cons g gs)
  show ?case
  proof (cases "converged env P")
    case True
    with Cons.prems show ?thesis by (simp add: extends_by_refl)
  next
    case False
    with Cons.prems obtain S1 P1 where
      inner: "alloy_inner_loop env db g [0..<psize] (S, P) = Inr (S1, P1)"
      and rest: "alloy_generations env db psize gs (S1, alloy_population_update env S1 P1)
                   = Inr (S', P')"
      by (auto split: sum.splits)
    from alloy_inner_loop_extends [OF inner R U] have "extends_by Q S S1" .
    moreover from Cons.IH [OF rest] have "extends_by Q S1 S'" .
    ultimately show ?thesis by (rule extends_by_trans)
  qed
qed

lemma alloy_main_extends:
  assumes mn: "alloy_main env db psize (S, P) = Inr (S', P')"
    and R: "\<forall>a a' e. relax env a db = Inr a' \<longrightarrow> relaxed_step_of a' e \<longrightarrow> Q e"
    and U: "\<forall>g i a1 a2 a3 d e. get_new_individual env g i a1 a2 = (Some a3, d) \<longrightarrow>
              unrelaxed_step_of a3 e \<longrightarrow> Q e"
  shows "extends_by Q S S'"
proof -
  from mn obtain S1 where ra: "alloy_relax_all env db S = Inr S1"
    and lp: "alloy_generations env db psize [0..<num_gens]
               (S1, alloy_population_update env S1 P) = Inr (S', P')"
    by (auto simp: alloy_main_def split: sum.splits)
  from alloy_relax_all_extends [OF ra R] have "extends_by Q S S1" .
  moreover from alloy_generations_extends [OF lp R U] have "extends_by Q S1 S'" .
  ultimately show ?thesis by (rule extends_by_trans)
qed

section \<open>Relaxed steps and the unrelaxed steps they come from\<close>

lemma appended_append:
  "appended Q S (ys @ zs) = (appended Q S ys \<and> appended Q (S @ ys) zs)"
  by (induction ys arbitrary: S) simp_all

lemma grows_by_iff: "grows_by Q S S' = (\<exists>ys. S' = S @ ys \<and> appended Q S ys)"
proof
  assume "grows_by Q S S'"
  then have "S' = S @ drop (length S) S'" and "appended Q S (drop (length S) S')"
    unfolding grows_by_def by (metis append_take_drop_id, simp)
  then show "\<exists>ys. S' = S @ ys \<and> appended Q S ys" by blast
next
  assume "\<exists>ys. S' = S @ ys \<and> appended Q S ys"
  then show "grows_by Q S S'" by (auto simp: grows_by_def)
qed

lemma grows_by_refl: "grows_by Q S S"
  by (simp add: grows_by_def)

lemma grows_by_trans:
  assumes "grows_by Q S S1" and "grows_by Q S1 S2"
  shows "grows_by Q S S2"
proof -
  from assms obtain ys zs where ys: "S1 = S @ ys" "appended Q S ys"
    and zs: "S2 = S1 @ zs" "appended Q S1 zs"
    unfolding grows_by_iff by blast
  then have "S2 = S @ (ys @ zs)" and "appended Q S (ys @ zs)"
    by (simp_all add: appended_append)
  then show ?thesis unfolding grows_by_iff by blast
qed

lemma grows_by_step: "Q S e \<Longrightarrow> grows_by Q S (S @ [e])"
  by (simp add: grows_by_def)

lemma grows_by_prefix: "grows_by Q S S' \<Longrightarrow> prefix S S'"
  unfolding grows_by_iff by auto

lemma stored_unrelaxed_mono:
  "stored_unrelaxed S a \<Longrightarrow> stored_unrelaxed (S @ ys) a"
  by (auto simp: stored_unrelaxed_def)

lemma get_an_unrelaxed_candidate_stored:
  assumes "get_an_unrelaxed_candidate pick S = Inr a"
  shows "stored_unrelaxed S a"
proof -
  from get_an_unrelaxed_candidate_Inr [OF assms] obtain e where
    e: "e \<in> set (unrelaxed_entries S)"
    and ae: "a = \<lparr>struct = e_struct e, confid = Some (gaid e), key_value_pairs = e_kvp e\<rparr>"
    by blast
  from e have "e \<in> set S" and "\<not> relaxed e" by (simp_all add: unrelaxed_entries_def)
  with ae show ?thesis by (auto simp: stored_unrelaxed_def candidate_of_def)
qed

lemma add_unrelaxed_candidate_stored:
  assumes "add_unrelaxed_candidate S a d = (S1, b)" and U: "\<forall>e. \<not> relaxed e \<longrightarrow> Q S e"
  shows "grows_by Q S S1 \<and> stored_unrelaxed S1 b"
proof -
  let ?u = "\<lparr>gaid = Suc (length S), relaxed = False, origin = d,
             e_struct = struct a, e_kvp = key_value_pairs a\<rparr>"
  from assms(1) have S1: "S1 = S @ [?u]" and b: "b = a\<lparr>confid := Some (Suc (length S))\<rparr>"
    by (simp_all add: add_unrelaxed_candidate_def Let_def)
  from U have "Q S ?u" by simp
  then have "grows_by Q S S1" unfolding S1 by (rule grows_by_step)
  moreover have "candidate_of ?u = b" unfolding b by (simp add: candidate_of_def)
  then have "stored_unrelaxed S1 b" unfolding S1 stored_unrelaxed_def by auto
  ultimately show ?thesis ..
qed

lemma add_unrelaxed_step_stored:
  assumes "add_unrelaxed_step S a d = Inr S1" and U: "\<forall>e. \<not> relaxed e \<longrightarrow> Q S e"
  shows "grows_by Q S S1 \<and> stored_unrelaxed S1 a"
proof -
  from assms(1) obtain g where g: "confid a = Some g"
    and S1: "S1 = S @ [\<lparr>gaid = g, relaxed = False, origin = d,
                         e_struct = struct a, e_kvp = key_value_pairs a\<rparr>]"
    by (auto simp: add_unrelaxed_step_def split: option.splits)
  let ?u = "\<lparr>gaid = g, relaxed = False, origin = d,
             e_struct = struct a, e_kvp = key_value_pairs a\<rparr>"
  from U have "Q S ?u" by simp
  then have "grows_by Q S S1" unfolding S1 by (rule grows_by_step)
  moreover have "candidate_of ?u = a" using g by (simp add: candidate_of_def)
  then have "stored_unrelaxed S1 a" unfolding S1 stored_unrelaxed_def by auto
  ultimately show ?thesis ..
qed

lemma bfgs_scored_unrelaxed: "\<forall>e. \<not> relaxed e \<longrightarrow> bfgs_scored env S e"
  by (simp add: bfgs_scored_def)

lemma relax_scored_unrelaxed: "\<forall>e. \<not> relaxed e \<longrightarrow> relax_scored env db S e"
  by (simp add: relax_scored_def)

lemma add_relaxed_step_bfgs:
  assumes ar: "add_relaxed_step S (relax_and_score env c) = Inr S'"
    and st: "stored_unrelaxed S c"
  shows "grows_by (bfgs_scored env) S S'"
proof -
  from st obtain u where u: "u \<in> set S" "\<not> relaxed u" and c: "candidate_of u = c"
    by (auto simp: stored_unrelaxed_def)
  from c have cf: "confid c = Some (gaid u)" and sc: "struct c = e_struct u"
    by (auto simp: candidate_of_def)
  let ?r = "\<lparr>gaid = gaid u, relaxed = True, origin = [],
             e_struct = struct (relax_and_score env c),
             e_kvp = key_value_pairs (relax_and_score env c)\<rparr>"
  from ar cf have S': "S' = S @ [?r]"
    by (simp add: add_relaxed_step_def relax_and_score_def Let_def)
  have "bfgs_scored env S ?r"
    unfolding bfgs_scored_def using u sc
    by (auto simp: relax_and_score_def Let_def)
  then show ?thesis unfolding S' by (rule grows_by_step)
qed

lemma relax_one_bfgs:
  assumes "relax_one env S = Inr S'"
  shows "grows_by (bfgs_scored env) S S'"
proof -
  from assms obtain a where a: "get_an_unrelaxed_candidate (pick_unrelaxed env) S = Inr a"
    and ar: "add_relaxed_step S (relax_and_score env a) = Inr S'"
    by (auto simp: relax_one_def split: sum.splits)
  from add_relaxed_step_bfgs [OF ar get_an_unrelaxed_candidate_stored [OF a]] show ?thesis .
qed

lemma relax_all_bfgs:
  assumes "relax_all env S = Inr S'"
  shows "grows_by (bfgs_scored env) S S'"
  using assms
proof (induction env S rule: relax_all.induct)
  case (1 env S)
  show ?case
  proof (cases "0 < get_number_of_unrelaxed_candidates S")
    case True
    with "1.prems" obtain S1 where S1: "relax_one env S = Inr S1"
      and rest: "relax_all env S1 = Inr S'"
      by (subst (asm) relax_all.simps) (auto split: sum.splits)
    from relax_one_bfgs [OF S1] have "grows_by (bfgs_scored env) S S1" .
    moreover from "1.IH" [OF True S1 rest] have "grows_by (bfgs_scored env) S1 S'" .
    ultimately show ?thesis by (rule grows_by_trans)
  next
    case False
    with "1.prems" have "S' = S" by (subst (asm) relax_all.simps) simp
    then show ?thesis by (simp add: grows_by_refl)
  qed
qed

lemma mutate_bfgs:
  assumes mu: "mutate env i S a = Inr (S', a')" and st: "stored_unrelaxed S a"
  shows "grows_by (bfgs_scored env) S S' \<and> stored_unrelaxed S' a'"
proof (cases "random env i < mutation_probability")
  case True
  show ?thesis
  proof (cases "mutations env i a")
    case (Pair r d)
    show ?thesis
    proof (cases r)
      case None
      with mu True Pair st show ?thesis by (simp add: mutate_def grows_by_refl)
    next
      case (Some am)
      with mu True Pair have "add_unrelaxed_step S am d = Inr S'" and "a' = am"
        by (auto simp: mutate_def split: sum.splits)
      with add_unrelaxed_step_stored [of S am d S' "bfgs_scored env", OF _ bfgs_scored_unrelaxed]
      show ?thesis by simp
    qed
  qed
next
  case False
  with mu st show ?thesis by (simp add: mutate_def grows_by_refl)
qed

lemma ga_iteration_bfgs:
  assumes it: "ga_iteration env i (S, P) = Inr (S', P')"
  shows "grows_by (bfgs_scored env) S S'"
proof -
  from it obtain a1 a2 where sel: "get_two_candidates env i P = Some (a1, a2)"
    by (auto simp: ga_iteration_def split: option.splits)
  obtain r d where pr: "pairing env i a1 a2 = (r, d)" by (cases "pairing env i a1 a2")
  show ?thesis
  proof (cases r)
    case None
    with it sel pr show ?thesis by (simp add: ga_iteration_def grows_by_refl)
  next
    case (Some a3)
    obtain S1 b where au: "add_unrelaxed_candidate S a3 d = (S1, b)"
      by (cases "add_unrelaxed_candidate S a3 d")
    from it sel pr Some au obtain S2 c where mu: "mutate env i S1 b = Inr (S2, c)"
      and ar: "add_relaxed_step S2 (relax_and_score env c) = Inr S'"
      by (auto simp: ga_iteration_def split: sum.splits)
    from add_unrelaxed_candidate_stored [where Q = "bfgs_scored env", OF au bfgs_scored_unrelaxed]
    have g1: "grows_by (bfgs_scored env) S S1" and s1: "stored_unrelaxed S1 b" by blast+
    from mutate_bfgs [OF mu s1]
    have g2: "grows_by (bfgs_scored env) S1 S2" and s2: "stored_unrelaxed S2 c" by blast+
    from add_relaxed_step_bfgs [OF ar s2] have g3: "grows_by (bfgs_scored env) S2 S'" .
    from g1 g2 g3 show ?thesis by (blast intro: grows_by_trans)
  qed
qed

lemma ga_loop_bfgs:
  assumes "ga_loop env is (S, P) = Inr (S', P')"
  shows "grows_by (bfgs_scored env) S S'"
  using assms
proof (induction "is" arbitrary: S P)
  case Nil
  then show ?case by (simp add: grows_by_refl)
next
  case (Cons i "is")
  from Cons.prems obtain S1 P1 where it: "ga_iteration env i (S, P) = Inr (S1, P1)"
    and rest: "ga_loop env is (S1, P1) = Inr (S', P')"
    by (auto split: sum.splits)
  from ga_iteration_bfgs [OF it] have "grows_by (bfgs_scored env) S S1" .
  moreover from Cons.IH [OF rest] have "grows_by (bfgs_scored env) S1 S'" .
  ultimately show ?case by (rule grows_by_trans)
qed

lemma ga_main_bfgs:
  assumes mn: "ga_main env Population S = Inr (S', P')"
  shows "grows_by (bfgs_scored env) S S'"
proof -
  from mn obtain S1 where ra: "relax_all env S = Inr S1"
    and lp: "ga_loop env [0..<n_to_test] (S1, Population S1) = Inr (S', P')"
    by (auto simp: ga_main_def split: sum.splits)
  from relax_all_bfgs [OF ra] have "grows_by (bfgs_scored env) S S1" .
  moreover from ga_loop_bfgs [OF lp] have "grows_by (bfgs_scored env) S1 S'" .
  ultimately show ?thesis by (rule grows_by_trans)
qed

lemma add_relaxed_step_relax:
  assumes rl: "relax env c db = Inr a'"
    and ar: "add_relaxed_step S a' = Inr S'"
    and st: "stored_unrelaxed S c"
  shows "grows_by (relax_scored env db) S S'"
proof -
  from st obtain u where u: "u \<in> set S" "\<not> relaxed u" and c: "candidate_of u = c"
    by (auto simp: stored_unrelaxed_def)
  from c have cf: "confid c = Some (gaid u)" by (auto simp: candidate_of_def)
  from relax_Inr [OF rl] cf have "confid a' = Some (gaid u)" by auto
  let ?r = "\<lparr>gaid = gaid u, relaxed = True, origin = [],
             e_struct = struct a', e_kvp = key_value_pairs a'\<rparr>"
  from ar \<open>confid a' = Some (gaid u)\<close> have S': "S' = S @ [?r]"
    by (simp add: add_relaxed_step_def)
  have "relax_scored env db S ?r"
    unfolding relax_scored_def using u c rl by auto
  then show ?thesis unfolding S' by (rule grows_by_step)
qed

lemma alloy_relax_one_scored:
  assumes "alloy_relax_one env db S = Inr S'"
  shows "grows_by (relax_scored env db) S S'"
proof -
  from assms obtain a a' where a: "get_an_unrelaxed_candidate (alloy_pick env) S = Inr a"
    and rl: "relax env a db = Inr a'"
    and ar: "add_relaxed_step S a' = Inr S'"
    by (auto simp: alloy_relax_one_def split: sum.splits)
  from add_relaxed_step_relax [OF rl ar get_an_unrelaxed_candidate_stored [OF a]]
  show ?thesis .
qed

lemma alloy_relax_all_scored:
  assumes "alloy_relax_all env db S = Inr S'"
  shows "grows_by (relax_scored env db) S S'"
  using assms
proof (induction env db S rule: alloy_relax_all.induct)
  case (1 env db S)
  show ?case
  proof (cases "0 < get_number_of_unrelaxed_candidates S")
    case True
    with "1.prems" obtain S1 where S1: "alloy_relax_one env db S = Inr S1"
      and rest: "alloy_relax_all env db S1 = Inr S'"
      by (subst (asm) alloy_relax_all.simps) (auto split: sum.splits)
    from alloy_relax_one_scored [OF S1] have "grows_by (relax_scored env db) S S1" .
    moreover from "1.IH" [OF True S1 rest] have "grows_by (relax_scored env db) S1 S'" .
    ultimately show ?thesis by (rule grows_by_trans)
  next
    case False
    with "1.prems" have "S' = S" by (subst (asm) alloy_relax_all.simps) simp
    then show ?thesis by (simp add: grows_by_refl)
  qed
qed

lemma alloy_iteration_scored:
  assumes it: "alloy_iteration env db g i (S, P) = Inr (S', P')"
  shows "grows_by (relax_scored env db) S S'"
proof -
  from it obtain a1 a2 where sel: "alloy_get_two_candidates env g i P = Some (a1, a2)"
    by (auto simp: alloy_iteration_def split: option.splits)
  obtain r d where pr: "get_new_individual env g i a1 a2 = (r, d)"
    by (cases "get_new_individual env g i a1 a2")
  from it sel pr obtain a3 where Some: "r = Some a3"
    by (cases r) (auto simp: alloy_iteration_def)
  obtain S1 b where au: "add_unrelaxed_candidate S a3 d = (S1, b)"
    by (cases "add_unrelaxed_candidate S a3 d")
  from it sel pr Some au obtain c where rl: "relax env b db = Inr c"
    and ar: "add_relaxed_step S1 c = Inr S'"
    by (auto simp: alloy_iteration_def split: sum.splits)
  from add_unrelaxed_candidate_stored [where Q = "relax_scored env db", OF au relax_scored_unrelaxed]
  have g1: "grows_by (relax_scored env db) S S1" and s1: "stored_unrelaxed S1 b" by blast+
  from add_relaxed_step_relax [OF rl ar s1] have "grows_by (relax_scored env db) S1 S'" .
  with g1 show ?thesis by (rule grows_by_trans)
qed

lemma alloy_inner_loop_scored:
  assumes "alloy_inner_loop env db g is (S, P) = Inr (S', P')"
  shows "grows_by (relax_scored env db) S S'"
  using assms
proof (induction "is" arbitrary: S P)
  case Nil
  then show ?case by (simp add: grows_by_refl)
next
  case (Cons i "is")
  from Cons.prems obtain S1 P1 where it: "alloy_iteration env db g i (S, P) = Inr (S1, P1)"
    and rest: "alloy_inner_loop env db g is (S1, P1) = Inr (S', P')"
    by (auto split: sum.splits)
  from alloy_iteration_scored [OF it] have "grows_by (relax_scored env db) S S1" .
  moreover from Cons.IH [OF rest] have "grows_by (relax_scored env db) S1 S'" .
  ultimately show ?case by (rule grows_by_trans)
qed

lemma alloy_generations_scored:
  assumes "alloy_generations env db psize gs (S, P) = Inr (S', P')"
  shows "grows_by (relax_scored env db) S S'"
  using assms
proof (induction gs arbitrary: S P)
  case Nil
  then show ?case by (simp add: grows_by_refl)
next
  case (Cons g gs)
  show ?case
  proof (cases "converged env P")
    case True
    with Cons.prems show ?thesis by (simp add: grows_by_refl)
  next
    case False
    with Cons.prems obtain S1 P1 where
      inner: "alloy_inner_loop env db g [0..<psize] (S, P) = Inr (S1, P1)"
      and rest: "alloy_generations env db psize gs (S1, alloy_population_update env S1 P1)
                   = Inr (S', P')"
      by (auto split: sum.splits)
    from alloy_inner_loop_scored [OF inner] have "grows_by (relax_scored env db) S S1" .
    moreover from Cons.IH [OF rest] have "grows_by (relax_scored env db) S1 S'" .
    ultimately show ?thesis by (rule grows_by_trans)
  qed
qed

lemma alloy_main_scored:
  assumes mn: "alloy_main env db psize (S, P) = Inr (S', P')"
  shows "grows_by (relax_scored env db) S S'"
proof -
  from mn obtain S1 where ra: "alloy_relax_all env db S = Inr S1"
    and lp: "alloy_generations env db psize [0..<num_gens]
               (S1, alloy_population_update env S1 P) = Inr (S', P')"
    by (auto simp: alloy_main_def split: sum.splits)
  from alloy_relax_all_scored [OF ra] have "grows_by (relax_scored env db) S S1" .
  moreover from alloy_generations_scored [OF lp] have "grows_by (relax_scored env db) S1 S'" .
  ultimately show ?thesis by (rule grows_by_trans)
qed

lemma relax_and_score_raw:
  "key_value_pairs (relax_and_score env a) ''raw_score''
     = Some (Num (- emt_energy env (bfgs env (struct a))))"
  "struct (relax_and_score env a) = bfgs env (struct a)"
  "confid (relax_and_score env a) = confid a"
  by (simp_all add: relax_and_score_def Let_def)

lemma relax_values:
  assumes "relax env a db = Inr a'"
  shows "\<exists>a_sum ei v1 ef B.
           ref_totals db (struct a) (remdups (struct a)) (0, 0) = Inr (a_sum, ei)
         \<and> eos_fit env (volumes_of (a_sum / real (length (struct a))))
              (energies_of env (struct a) (volumes_of (a_sum / real (length (struct a)))))
             = (v1, ef, B)
         \<and> length (struct a) = 4
         \<and> key_value_pairs a' ''hof'' = Some (Num ((ef - ei) / real (length (struct a))))
         \<and> key_value_pairs a' ''raw_score''
             = Some (Num (- ((ef - ei) / real (length (struct a)))))
         \<and> key_value_pairs a' ''latticeconstant'' = Some (Num (cbrt env v1))
         \<and> struct a' = struct a \<and> confid a' = confid a"
  using assms unfolding relax_def Let_def
  by (auto simp: fcc_natoms_def split: if_splits sum.splits prod.splits)

lemma relax_one_shape:
  assumes "relax_one env S = Inr S1"
  shows "\<exists>e \<in> set (unrelaxed_entries S).
           S1 = S @ [\<lparr>gaid = gaid e, relaxed = True, origin = [],
                      e_struct = bfgs env (e_struct e),
                      e_kvp = (e_kvp e)(''raw_score'' \<mapsto>
                                Num (- emt_energy env (bfgs env (e_struct e))))\<rparr>]"
proof -
  from assms obtain a where a: "get_an_unrelaxed_candidate (pick_unrelaxed env) S = Inr a"
    and S1: "add_relaxed_step S (relax_and_score env a) = Inr S1"
    by (auto simp: relax_one_def split: sum.splits)
  from get_an_unrelaxed_candidate_Inr [OF a] obtain e where
    e: "e \<in> set (unrelaxed_entries S)"
    and ae: "a = \<lparr>struct = e_struct e, confid = Some (gaid e), key_value_pairs = e_kvp e\<rparr>"
    by blast
  from S1 have "S1 = S @ [\<lparr>gaid = gaid e, relaxed = True, origin = [],
                      e_struct = bfgs env (e_struct e),
                      e_kvp = (e_kvp e)(''raw_score'' \<mapsto>
                                Num (- emt_energy env (bfgs env (e_struct e))))\<rparr>]"
    unfolding ae by (simp add: add_relaxed_step_def relax_and_score_def Let_def)
  with e show ?thesis by blast
qed

lemma example_ga_env_sel:
  "bfgs example_ga_env s = s + 1"
  "emt_energy example_ga_env s = - real s"
  "population_update example_ga_env S P = get_all_relaxed_candidates S"
  "random example_ga_env i = 0.1"
  "mutations example_ga_env i a = (None, ''mutation'')"
  by (simp_all add: example_ga_env_def)

lemma example_ga_loop_runs:
  "\<exists>S' P'. ga_loop example_mutating_env [0] (example_store, example_population) = Inr (S', P')
     \<and> length S' = 5"
  by (simp add: ga_iteration_def example_ga_env_def example_population_def example_mutating_env_def
      add_unrelaxed_candidate_def Let_def mutate_def mutation_probability_def add_unrelaxed_step_def
      add_relaxed_step_def example_store_def relax_and_score_def)

lemma example_ga_main_runs:
  "\<exists>S' P'. ga_main example_mutating_env get_all_relaxed_candidates example_store = Inr (S', P')
     \<and> length S' = 64"
  by (simp add: ga_main_def n_to_test_def relax_all.simps relax_one_def
      get_number_of_unrelaxed_candidates_def get_an_unrelaxed_candidate_def unrelaxed_entries_def
      relaxed_ids_def get_all_relaxed_candidates_def upt_rec
      ga_iteration_def example_ga_env_def example_mutating_env_def
      add_unrelaxed_candidate_def Let_def mutate_def mutation_probability_def add_unrelaxed_step_def
      add_relaxed_step_def example_store_def relax_and_score_def)

lemma example_alloy_generations_runs:
  "\<exists>T' PA'. alloy_generations example_alloy_env example_refs 1 [0]
             (example_alloy_store, example_alloy_population) = Inr (T', PA') \<and> length T' = 4"
  by (simp add: alloy_iteration_def example_alloy_env_def example_alloy_population_def
      add_unrelaxed_candidate_def Let_def relax_def fcc_natoms_def example_refs_def
      add_relaxed_step_def example_alloy_store_def split: prod.splits)

lemma example_alloy_main_runs:
  "\<exists>T' PA'. alloy_main example_alloy_env example_refs 2 (example_alloy_store, [])
             = Inr (T', PA') \<and> length T' = 8"
  by (simp add: alloy_main_def num_gens_def alloy_relax_all.simps alloy_relax_one_def
      get_number_of_unrelaxed_candidates_def get_an_unrelaxed_candidate_def unrelaxed_entries_def
      relaxed_ids_def get_all_relaxed_candidates_def upt_rec
      alloy_iteration_def example_alloy_env_def
      add_unrelaxed_candidate_def Let_def relax_def fcc_natoms_def example_refs_def
      add_relaxed_step_def example_alloy_store_def split: prod.splits)

lemma example_alloy_relax_all_runs:
  "\<exists>T'. alloy_relax_all example_alloy_env example_refs example_alloy_store = Inr T'"
  using alloy_relax_all_completes [OF example_alloy_store_evaluable] .

lemma example_get_an_unrelaxed_candidate:
  "get_an_unrelaxed_candidate (\<lambda>S. 0) example_store
     = Inr \<lparr>struct = 10, confid = Some 1, key_value_pairs = Map.empty\<rparr>"
  by (simp add: get_an_unrelaxed_candidate_def unrelaxed_entries_def relaxed_ids_def
      example_store_def)

lemma example_relax_one:
  "relax_one example_ga_env example_store
     = Inr (example_store @
              [\<lparr>gaid = 1, relaxed = True, origin = [], e_struct = 11,
                e_kvp = [''raw_score'' \<mapsto> Num 11]\<rparr>])"
  by (simp add: relax_one_def get_an_unrelaxed_candidate_def unrelaxed_entries_def relaxed_ids_def
      example_store_def add_relaxed_step_def relax_and_score_def Let_def example_ga_env_def)

lemma example_relax_runs:
  "\<exists>a'. relax example_alloy_env
          \<lparr>struct = [''Cu'', ''Cu'', ''Ni'', ''Ni''], confid = Some 1, key_value_pairs = Map.empty\<rparr>
          example_refs = Inr a'"
  by (rule relax_succeeds) (simp add: evaluable_def example_refs_def fcc_natoms_def)

section \<open>Failure of the variation operators\<close>

text \<open>
  Claim C7. The pairing operator returns a child or failure (\<open>None\<close>). When pairing of
  the two selected parents fails, the iteration of the main loop leaves the store and the
  population as they were, and the loop goes on with the next iteration.
\<close>

theorem pairing_failure_skips_iteration:
  assumes "get_two_candidates env i P = Some (a1, a2)"
    and "fst (pairing env i a1 a2) = None"
  shows "ga_iteration env i (S, P) = Inr (S, P)
       \<and> ga_loop env (i # is) (S, P) = ga_loop env is (S, P)"
proof -
  obtain r d where p: "pairing env i a1 a2 = (r, d)" by (cases "pairing env i a1 a2")
  with assms(2) have "r = None" by simp
  with assms(1) p have "ga_iteration env i (S, P) = Inr (S, P)"
    by (simp add: ga_iteration_def)
  then show ?thesis by simp
qed

theorem pairing_failure_skips_iteration_witness:
  "get_two_candidates (example_ga_env\<lparr>pairing := \<lambda>i a1 a2. (None, ''pairing'')\<rparr>) 0
     example_population
     = Some (\<lparr>struct = 11, confid = Some 1, key_value_pairs = [''raw_score'' \<mapsto> Num 11]\<rparr>,
             \<lparr>struct = 21, confid = Some 2, key_value_pairs = [''raw_score'' \<mapsto> Num 21]\<rparr>)
   \<and> fst (pairing (example_ga_env\<lparr>pairing := \<lambda>i a1 a2. (None, ''pairing'')\<rparr>) 0
        \<lparr>struct = 11, confid = Some 1, key_value_pairs = [''raw_score'' \<mapsto> Num 11]\<rparr>
        \<lparr>struct = 21, confid = Some 2, key_value_pairs = [''raw_score'' \<mapsto> Num 21]\<rparr>) = None
   \<and> ga_iteration (example_ga_env\<lparr>pairing := \<lambda>i a1 a2. (None, ''pairing'')\<rparr>) 0
        (example_store, example_population) = Inr (example_store, example_population)
   \<and> ga_loop (example_ga_env\<lparr>pairing := \<lambda>i a1 a2. (None, ''pairing'')\<rparr>) [0, 1]
        (example_store, example_population)
     = ga_loop (example_ga_env\<lparr>pairing := \<lambda>i a1 a2. (None, ''pairing'')\<rparr>) [1]
        (example_store, example_population)"
proof -
  let ?env = "example_ga_env\<lparr>pairing := \<lambda>i a1 a2. (None, ''pairing'')\<rparr>"
  let ?a1 = "\<lparr>struct = 11::nat, confid = Some 1, key_value_pairs = [''raw_score'' \<mapsto> Num 11]\<rparr>"
  let ?a2 = "\<lparr>struct = 21::nat, confid = Some 2, key_value_pairs = [''raw_score'' \<mapsto> Num 21]\<rparr>"
  have sel: "get_two_candidates ?env 0 example_population = Some (?a1, ?a2)"
    by (simp add: example_ga_env_def example_population_def)
  have fail: "fst (pairing ?env 0 ?a1 ?a2) = None"
    by (simp add: example_ga_env_def)
  from pairing_failure_skips_iteration [OF sel fail, of example_store "[1]"] sel fail
  show ?thesis by simp
qed

text \<open>
  Claim C8. Mutation failure never drops the candidate of the iteration. When the mutation
  operator is invoked on the paired child and returns \<open>None\<close>, the iteration does exactly
  what it does when no mutation is attempted: the unmutated child is relaxed, given its raw
  score and recorded as relaxed under its identifier, and the population is updated.
\<close>

theorem mutation_failure_keeps_child:
  assumes "get_two_candidates env i P = Some (a1, a2)"
    and "pairing env i a1 a2 = (Some a3, desc)"
    and "random env i < mutation_probability"
    and "fst (mutations env i (a3\<lparr>confid := Some (Suc (length S))\<rparr>)) = None"
  shows "ga_iteration env i (S, P) = ga_iteration (env\<lparr>random := \<lambda>i. 1\<rparr>) i (S, P)
       \<and> (\<exists>S'. ga_iteration env i (S, P) = Inr (S', population_update env S' P)
             \<and> S' = S @
                 [\<lparr>gaid = Suc (length S), relaxed = False, origin = desc,
                   e_struct = struct a3, e_kvp = key_value_pairs a3\<rparr>,
                  \<lparr>gaid = Suc (length S), relaxed = True, origin = [],
                   e_struct = bfgs env (struct a3),
                   e_kvp = (key_value_pairs a3)
                     (''raw_score'' \<mapsto> Num (- emt_energy env (bfgs env (struct a3))))\<rparr>])"
proof -
  let ?b = "a3\<lparr>confid := Some (Suc (length S))\<rparr>"
  let ?S1 = "S @ [\<lparr>gaid = Suc (length S), relaxed = False, origin = desc,
                   e_struct = struct a3, e_kvp = key_value_pairs a3\<rparr>]"
  have au: "add_unrelaxed_candidate S a3 desc = (?S1, ?b)"
    by (simp add: add_unrelaxed_candidate_def Let_def)
  obtain r d where m: "mutations env i ?b = (r, d)" by (cases "mutations env i ?b")
  with assms(4) have r: "r = None" by simp
  from assms(3) m r have mu: "mutate env i ?S1 ?b = Inr (?S1, ?b)"
    by (simp add: mutate_def)
  have mu': "mutate (env\<lparr>random := \<lambda>i. 1\<rparr>) i ?S1 ?b = Inr (?S1, ?b)"
    by (simp add: mutate_def mutation_probability_def)
  have sc: "relax_and_score (env\<lparr>random := \<lambda>i. 1\<rparr>) ?b = relax_and_score env ?b"
    by (simp add: relax_and_score_def)
  have res: "add_relaxed_step ?S1 (relax_and_score env ?b) =
      Inr (?S1 @ [\<lparr>gaid = Suc (length S), relaxed = True, origin = [],
                   e_struct = bfgs env (struct a3),
                   e_kvp = (key_value_pairs a3)
                     (''raw_score'' \<mapsto> Num (- emt_energy env (bfgs env (struct a3))))\<rparr>])"
    by (simp add: add_relaxed_step_def relax_and_score_def Let_def)
  have eq: "ga_iteration env i (S, P) = ga_iteration (env\<lparr>random := \<lambda>i. 1\<rparr>) i (S, P)"
    using assms(1,2) au mu mu' sc res by (simp add: ga_iteration_def)
  from assms(1,2) au mu res eq show ?thesis by (simp add: ga_iteration_def)
qed

theorem mutation_failure_keeps_child_witness:
  "get_two_candidates example_ga_env 0 example_population
     = Some (\<lparr>struct = 11, confid = Some 1, key_value_pairs = [''raw_score'' \<mapsto> Num 11]\<rparr>,
             \<lparr>struct = 21, confid = Some 2, key_value_pairs = [''raw_score'' \<mapsto> Num 21]\<rparr>)
   \<and> pairing example_ga_env 0
        \<lparr>struct = 11, confid = Some 1, key_value_pairs = [''raw_score'' \<mapsto> Num 11]\<rparr>
        \<lparr>struct = 21, confid = Some 2, key_value_pairs = [''raw_score'' \<mapsto> Num 21]\<rparr>
     = (Some \<lparr>struct = 32, confid = None, key_value_pairs = Map.empty\<rparr>, ''pairing'')
   \<and> random example_ga_env 0 < mutation_probability
   \<and> fst (mutations example_ga_env 0
          (\<lparr>struct = 32, confid = None, key_value_pairs = Map.empty\<rparr>
             \<lparr>confid := Some (Suc (length example_store))\<rparr>)) = None
   \<and> ga_iteration example_ga_env 0 (example_store, example_population)
     = ga_iteration (example_ga_env\<lparr>random := \<lambda>i. 1\<rparr>) 0 (example_store, example_population)
   \<and> ga_iteration example_ga_env 0 (example_store, example_population)
     = Inr (example_store @
              [\<lparr>gaid = 3, relaxed = False, origin = ''pairing'', e_struct = 32,
                e_kvp = Map.empty\<rparr>,
               \<lparr>gaid = 3, relaxed = True, origin = [], e_struct = 33,
                e_kvp = [''raw_score'' \<mapsto> Num 33]\<rparr>],
            [\<lparr>struct = 33, confid = Some 3, key_value_pairs = [''raw_score'' \<mapsto> Num 33]\<rparr>])"
proof -
  let ?a1 = "\<lparr>struct = 11::nat, confid = Some 1, key_value_pairs = [''raw_score'' \<mapsto> Num 11]\<rparr>"
  let ?a2 = "\<lparr>struct = 21::nat, confid = Some 2, key_value_pairs = [''raw_score'' \<mapsto> Num 21]\<rparr>"
  let ?a3 = "\<lparr>struct = 32::nat, confid = None, key_value_pairs = Map.empty\<rparr>"
  have sel: "get_two_candidates example_ga_env 0 example_population = Some (?a1, ?a2)"
    by (simp add: example_ga_env_def example_population_def)
  have pair: "pairing example_ga_env 0 ?a1 ?a2 = (Some ?a3, ''pairing'')"
    by (simp add: example_ga_env_def)
  have draw: "random example_ga_env 0 < mutation_probability"
    by (simp add: example_ga_env_def mutation_probability_def)
  have fail: "fst (mutations example_ga_env 0
                 (?a3\<lparr>confid := Some (Suc (length example_store))\<rparr>)) = None"
    by (simp add: example_ga_env_def)
  note t = mutation_failure_keeps_child [OF sel pair draw fail]
  from t have eq: "ga_iteration example_ga_env 0 (example_store, example_population)
     = ga_iteration (example_ga_env\<lparr>random := \<lambda>i. 1\<rparr>) 0 (example_store, example_population)"
    by (rule conjunct1)
  from t [THEN conjunct2]
  have res: "ga_iteration example_ga_env 0 (example_store, example_population)
     = Inr (example_store @
              [\<lparr>gaid = 3, relaxed = False, origin = ''pairing'', e_struct = 32,
                e_kvp = Map.empty\<rparr>,
               \<lparr>gaid = 3, relaxed = True, origin = [], e_struct = 33,
                e_kvp = [''raw_score'' \<mapsto> Num 33]\<rparr>],
            [\<lparr>struct = 33, confid = Some 3, key_value_pairs = [''raw_score'' \<mapsto> Num 33]\<rparr>])"
    by (simp add: example_ga_env_sel example_store_def get_all_relaxed_candidates_def)
  from sel pair draw fail eq res show ?thesis by blast
qed

section \<open>Fitness and relaxation state\<close>

text \<open>
  Claim C1. A fitness is assigned only at the moment a candidate is marked relaxed. The
  variation operators hand over candidates without a raw score, and the store starts
  with a raw score on exactly its relaxed steps. Then a candidate retrieved for relaxation
  has no raw score, it has one after the relaxation and scoring lines, and after the
  relax-all loop and after any number of iterations of the main loop, in the pool GA and in
  the alloy GA, the entries that carry a raw score are exactly the relaxed steps: no
  unrelaxed entry ever carries a fitness.
\<close>

theorem fitness_assigned_only_when_marked_relaxed:
  assumes inv: "list_all fitness_only_when_relaxed S"
    and ops: "unscored_offspring env"
    and invT: "list_all fitness_only_when_relaxed T"
    and aops: "alloy_unscored_offspring aenv"
  shows "(get_an_unrelaxed_candidate pick S = Inr a \<longrightarrow>
            key_value_pairs a ''raw_score'' = None
          \<and> key_value_pairs (relax_and_score env a) ''raw_score'' \<noteq> None)
       \<and> (\<exists>S1. relax_all env S = Inr S1 \<and> list_all fitness_only_when_relaxed S1)
       \<and> (ga_loop env is (S, P) = Inr (S', P') \<longrightarrow> list_all fitness_only_when_relaxed S')
       \<and> (ga_main env Population S = Inr (S', P') \<longrightarrow> list_all fitness_only_when_relaxed S')
       \<and> (alloy_relax_all aenv db T = Inr T' \<longrightarrow> list_all fitness_only_when_relaxed T')
       \<and> (alloy_generations aenv db psize gs (T, PA) = Inr (T', PA') \<longrightarrow>
            list_all fitness_only_when_relaxed T')
       \<and> (alloy_main aenv db psize (T, PA) = Inr (T', PA') \<longrightarrow>
            list_all fitness_only_when_relaxed T')"
proof -
  from ops have p: "\<forall>i a1 a2 a3 d. pairing env i a1 a2 = (Some a3, d) \<longrightarrow>
              key_value_pairs a3 ''raw_score'' = None"
    and m: "\<forall>i a am d. key_value_pairs a ''raw_score'' = None \<longrightarrow>
              mutations env i a = (Some am, d) \<longrightarrow> key_value_pairs am ''raw_score'' = None"
    by (simp_all add: unscored_offspring_def)
  from aops have o: "\<forall>g i a1 a2 a3 d. get_new_individual aenv g i a1 a2 = (Some a3, d) \<longrightarrow>
              key_value_pairs a3 ''raw_score'' = None"
    by (simp add: alloy_unscored_offspring_def)
  let ?Q = "fitness_only_when_relaxed :: 'a entry \<Rightarrow> bool"
  let ?QT = "fitness_only_when_relaxed :: string list entry \<Rightarrow> bool"
  have R: "\<forall>a e. relaxed_step_of (relax_and_score env a) e \<longrightarrow> ?Q e"
    by (simp add: relaxed_step_of_def fitness_only_when_relaxed_def relax_and_score_raw)
  have U1: "\<forall>i a1 a2 a3 d e. pairing env i a1 a2 = (Some a3, d) \<longrightarrow>
              unrelaxed_step_of a3 e \<longrightarrow> ?Q e"
    using p by (auto simp: unrelaxed_step_of_def fitness_only_when_relaxed_def)
  have U2: "\<forall>i a1 a2 a3 d g am dm e. pairing env i a1 a2 = (Some a3, d) \<longrightarrow>
               mutations env i (a3\<lparr>confid := Some g\<rparr>) = (Some am, dm) \<longrightarrow>
               unrelaxed_step_of am e \<longrightarrow> ?Q e"
  proof (intro allI impI)
    fix i a1 a2 a3 d g am dm and e :: "'a entry"
    assume "pairing env i a1 a2 = (Some a3, d)"
      and mu: "mutations env i (a3\<lparr>confid := Some g\<rparr>) = (Some am, dm)"
      and e: "unrelaxed_step_of am e"
    with p have "key_value_pairs a3 ''raw_score'' = None" by blast
    then have "key_value_pairs (a3\<lparr>confid := Some g\<rparr>) ''raw_score'' = None" by simp
    with m mu have "key_value_pairs am ''raw_score'' = None" by blast
    with e show "?Q e" by (simp add: unrelaxed_step_of_def fitness_only_when_relaxed_def)
  qed
  have RT: "\<forall>a a' e. relax aenv a db = Inr a' \<longrightarrow> relaxed_step_of a' e \<longrightarrow> ?QT e"
    using relax_values [of aenv _ db]
    by (fastforce simp: relaxed_step_of_def fitness_only_when_relaxed_def)
  have UT: "\<forall>g i a1 a2 a3 d e. get_new_individual aenv g i a1 a2 = (Some a3, d) \<longrightarrow>
              unrelaxed_step_of a3 e \<longrightarrow> ?QT e"
    using o by (auto simp: unrelaxed_step_of_def fitness_only_when_relaxed_def)
  have c1: "get_an_unrelaxed_candidate pick S = Inr a \<longrightarrow>
            key_value_pairs a ''raw_score'' = None
          \<and> key_value_pairs (relax_and_score env a) ''raw_score'' \<noteq> None"
  proof
    assume "get_an_unrelaxed_candidate pick S = Inr a"
    from get_an_unrelaxed_candidate_Inr [OF this] obtain e where
      e: "e \<in> set (unrelaxed_entries S)" and a: "key_value_pairs a = e_kvp e" by auto
    from unrelaxed_entries_subset [OF e] inv have "e_kvp e ''raw_score'' = None"
      by (auto simp: list_all_iff fitness_only_when_relaxed_def)
    with a show "key_value_pairs a ''raw_score'' = None
          \<and> key_value_pairs (relax_and_score env a) ''raw_score'' \<noteq> None"
      by (simp add: relax_and_score_raw)
  qed
  from relax_all_zero [of env S] obtain S1 where S1: "relax_all env S = Inr S1" by blast
  from extends_by_list_all [OF relax_all_extends [OF S1 R] inv] S1
  have c2: "\<exists>S1. relax_all env S = Inr S1 \<and> list_all fitness_only_when_relaxed S1" by blast
  have c3: "ga_loop env is (S, P) = Inr (S', P') \<longrightarrow> list_all fitness_only_when_relaxed S'"
    using extends_by_list_all [OF ga_loop_extends [OF _ R U1 U2] inv] by blast
  have c4: "alloy_relax_all aenv db T = Inr T' \<longrightarrow> list_all fitness_only_when_relaxed T'"
    using extends_by_list_all [OF alloy_relax_all_extends [OF _ RT] invT] by blast
  have c5: "alloy_generations aenv db psize gs (T, PA) = Inr (T', PA') \<longrightarrow>
            list_all fitness_only_when_relaxed T'"
    using extends_by_list_all [OF alloy_generations_extends [OF _ RT UT] invT] by blast
  have c6: "ga_main env Population S = Inr (S', P') \<longrightarrow> list_all fitness_only_when_relaxed S'"
    using extends_by_list_all [OF ga_main_extends [OF _ R U1 U2] inv] by blast
  have c7: "alloy_main aenv db psize (T, PA) = Inr (T', PA') \<longrightarrow>
            list_all fitness_only_when_relaxed T'"
    using extends_by_list_all [OF alloy_main_extends [OF _ RT UT] invT] by blast
  from c1 c2 c3 c6 c4 c5 c7 show ?thesis by blast
qed

theorem fitness_assigned_only_when_marked_relaxed_witness:
  "list_all fitness_only_when_relaxed example_store
   \<and> unscored_offspring example_mutating_env
   \<and> list_all fitness_only_when_relaxed example_alloy_store
   \<and> alloy_unscored_offspring example_alloy_env
   \<and> get_an_unrelaxed_candidate (\<lambda>S. 0) example_store
       = Inr \<lparr>struct = 10, confid = Some 1, key_value_pairs = Map.empty\<rparr>
   \<and> key_value_pairs (relax_and_score example_mutating_env
         \<lparr>struct = 10, confid = Some 1, key_value_pairs = Map.empty\<rparr>) ''raw_score'' \<noteq> None
   \<and> (\<exists>S1. relax_all example_mutating_env example_store = Inr S1
         \<and> list_all fitness_only_when_relaxed S1)
   \<and> (\<exists>S' P'. ga_loop example_mutating_env [0] (example_store, example_population) = Inr (S', P')
         \<and> length S' = 5 \<and> list_all fitness_only_when_relaxed S')
   \<and> (\<exists>T'. alloy_relax_all example_alloy_env example_refs example_alloy_store = Inr T'
         \<and> list_all fitness_only_when_relaxed T')
   \<and> (\<exists>T' PA'. alloy_generations example_alloy_env example_refs 1 [0]
           (example_alloy_store, example_alloy_population) = Inr (T', PA')
         \<and> length T' = 4 \<and> list_all fitness_only_when_relaxed T')
   \<and> (\<exists>S' P'. ga_main example_mutating_env get_all_relaxed_candidates example_store
           = Inr (S', P')
         \<and> length S' = 64 \<and> list_all fitness_only_when_relaxed S')
   \<and> (\<exists>T' PA'. alloy_main example_alloy_env example_refs 2 (example_alloy_store, [])
           = Inr (T', PA')
         \<and> length T' = 8 \<and> list_all fitness_only_when_relaxed T')"
proof -
  have inv: "list_all fitness_only_when_relaxed example_store"
    by (simp add: example_store_def fitness_only_when_relaxed_def)
  have p: "unscored_offspring example_mutating_env"
    by (auto simp: unscored_offspring_def example_mutating_env_def example_ga_env_def)
  have invT: "list_all fitness_only_when_relaxed example_alloy_store"
    by (simp add: example_alloy_store_def fitness_only_when_relaxed_def)
  have o: "alloy_unscored_offspring example_alloy_env"
    by (auto simp: alloy_unscored_offspring_def example_alloy_env_def)
  note g = example_get_an_unrelaxed_candidate
  from example_ga_loop_runs obtain S' P' where
    lp: "ga_loop example_mutating_env [0] (example_store, example_population) = Inr (S', P')"
    and len: "length S' = 5" by blast
  from example_alloy_relax_all_runs obtain T' where
    ra: "alloy_relax_all example_alloy_env example_refs example_alloy_store = Inr T'" by blast
  from example_alloy_generations_runs obtain T'' PA' where
    gn: "alloy_generations example_alloy_env example_refs 1 [0]
           (example_alloy_store, example_alloy_population) = Inr (T'', PA')"
    and lenT: "length T'' = 4" by blast
  from example_ga_main_runs obtain S2 P2 where
    gm: "ga_main example_mutating_env get_all_relaxed_candidates example_store = Inr (S2, P2)"
    and len2: "length S2 = 64" by blast
  from example_alloy_main_runs obtain T3 PA3 where
    am: "alloy_main example_alloy_env example_refs 2 (example_alloy_store, []) = Inr (T3, PA3)"
    and len3: "length T3 = 8" by blast
  note t = fitness_assigned_only_when_marked_relaxed [OF inv p invT o]
  from t [of "\<lambda>S. 0" "\<lparr>struct = 10, confid = Some 1, key_value_pairs = Map.empty\<rparr>"] g
  have A: "key_value_pairs (relax_and_score example_mutating_env
         \<lparr>struct = 10, confid = Some 1, key_value_pairs = Map.empty\<rparr>) ''raw_score'' \<noteq> None"
    by blast
  from t have B: "\<exists>S1. relax_all example_mutating_env example_store = Inr S1
         \<and> list_all fitness_only_when_relaxed S1" by blast
  from t [where ?is = "[0]" and P = example_population and S' = S' and P' = P'] lp
  have C: "list_all fitness_only_when_relaxed S'" by blast
  from t [where db = example_refs and T' = T'] ra
  have D: "list_all fitness_only_when_relaxed T'" by blast
  from t [where db = example_refs and psize = 1 and gs = "[0]" and PA = example_alloy_population
      and T' = T'' and PA' = PA'] gn
  have E: "list_all fitness_only_when_relaxed T''" by blast
  from t [where Population = get_all_relaxed_candidates and S' = S2 and P' = P2] gm
  have F: "list_all fitness_only_when_relaxed S2" by blast
  from t [where db = example_refs and psize = 2 and PA = "[]" and T' = T3 and PA' = PA3] am
  have G: "list_all fitness_only_when_relaxed T3" by blast
  from inv p invT o g A B lp len C ra D gn lenT E gm len2 F am len3 G show ?thesis by blast
qed

text \<open>
  Claim C4. The stored raw score of a candidate marked relaxed is the negated energy of the
  evaluator. Pool GA: every relaxed step that the relax-all loop, the main loop and the
  whole script append belongs to a candidate with an unrelaxed step in the store, stores
  the structure that the BFGS relaxation returns for that step, and carries as raw score
  minus the potential energy of the relaxed structure; so every relaxed entry carries minus
  the potential energy of its own structure. Alloy GA: the function \<open>relax\<close> writes
  \<open>hof = (ef - ei) / number of atoms\<close> and \<open>raw_score = - hof\<close>, with \<open>ei\<close> the sum
  of the reference energies and \<open>ef\<close> the fitted energy; every relaxed step that the
  alloy loops and the whole script append belongs to a candidate with an unrelaxed step in
  the store, stores what \<open>relax\<close> returns for that step, and carries minus its heat of
  formation.
\<close>

theorem raw_score_is_negated_energy:
  assumes inv: "list_all (scored env) S" and invT: "list_all hof_scored T"
  shows "(relax_one env S = Inr S1 \<longrightarrow>
            (\<exists>e \<in> set (unrelaxed_entries S).
               S1 = S @ [\<lparr>gaid = gaid e, relaxed = True, origin = [],
                          e_struct = bfgs env (e_struct e),
                          e_kvp = (e_kvp e)(''raw_score'' \<mapsto>
                                    Num (- emt_energy env (bfgs env (e_struct e))))\<rparr>]))
       \<and> (\<exists>S'. relax_all env S = Inr S' \<and> list_all (scored env) S'
               \<and> grows_by (bfgs_scored env) S S')
       \<and> (ga_loop env is (S, P) = Inr (S', P') \<longrightarrow>
            list_all (scored env) S' \<and> grows_by (bfgs_scored env) S S')
       \<and> (relax aenv a db = Inr a' \<longrightarrow>
            (\<exists>a_sum ei v1 ef B.
               ref_totals db (struct a) (remdups (struct a)) (0, 0) = Inr (a_sum, ei)
             \<and> eos_fit aenv (volumes_of (a_sum / real (length (struct a))))
                  (energies_of aenv (struct a) (volumes_of (a_sum / real (length (struct a)))))
                 = (v1, ef, B)
             \<and> key_value_pairs a' ''hof'' = Some (Num ((ef - ei) / real (length (struct a))))
             \<and> key_value_pairs a' ''raw_score''
                 = Some (Num (- ((ef - ei) / real (length (struct a)))))))
       \<and> (alloy_relax_all aenv db T = Inr T' \<longrightarrow>
            list_all hof_scored T' \<and> grows_by (relax_scored aenv db) T T')
       \<and> (alloy_generations aenv db psize gs (T, PA) = Inr (T', PA') \<longrightarrow>
            list_all hof_scored T' \<and> grows_by (relax_scored aenv db) T T')
       \<and> (ga_main env Population S = Inr (S', P') \<longrightarrow>
            list_all (scored env) S' \<and> grows_by (bfgs_scored env) S S')
       \<and> (alloy_main aenv db psize (T, PA) = Inr (T', PA') \<longrightarrow>
            list_all hof_scored T' \<and> grows_by (relax_scored aenv db) T T')"
proof -
  let ?Q = "scored env"
  have R: "\<forall>a e. relaxed_step_of (relax_and_score env a) e \<longrightarrow> ?Q e"
    by (simp add: relaxed_step_of_def scored_def relax_and_score_raw)
  have U1: "\<forall>i a1 a2 a3 d e. pairing env i a1 a2 = (Some a3, d) \<longrightarrow>
              unrelaxed_step_of a3 e \<longrightarrow> ?Q e"
    by (simp add: unrelaxed_step_of_def scored_def)
  have U2: "\<forall>i a1 a2 a3 d g am dm e. pairing env i a1 a2 = (Some a3, d) \<longrightarrow>
               mutations env i (a3\<lparr>confid := Some g\<rparr>) = (Some am, dm) \<longrightarrow>
               unrelaxed_step_of am e \<longrightarrow> ?Q e"
    by (simp add: unrelaxed_step_of_def scored_def)
  have RT: "\<forall>a a' e. relax aenv a db = Inr a' \<longrightarrow> relaxed_step_of a' e \<longrightarrow> hof_scored e"
    using relax_values [of aenv _ db]
    by (fastforce simp: relaxed_step_of_def hof_scored_def)
  have UT: "\<forall>g i a1 a2 a3 d e. get_new_individual aenv g i a1 a2 = (Some a3, d) \<longrightarrow>
              unrelaxed_step_of a3 e \<longrightarrow> hof_scored e"
    by (simp add: unrelaxed_step_of_def hof_scored_def)
  have c1: "relax_one env S = Inr S1 \<longrightarrow>
            (\<exists>e \<in> set (unrelaxed_entries S).
               S1 = S @ [\<lparr>gaid = gaid e, relaxed = True, origin = [],
                          e_struct = bfgs env (e_struct e),
                          e_kvp = (e_kvp e)(''raw_score'' \<mapsto>
                                    Num (- emt_energy env (bfgs env (e_struct e))))\<rparr>])"
    using relax_one_shape by blast
  from relax_all_zero [of env S] obtain S0 where S0: "relax_all env S = Inr S0" by blast
  from extends_by_list_all [OF relax_all_extends [OF S0 R] inv] relax_all_bfgs [OF S0] S0
  have c2: "\<exists>S'. relax_all env S = Inr S' \<and> list_all (scored env) S'
               \<and> grows_by (bfgs_scored env) S S'" by blast
  have c3: "ga_loop env is (S, P) = Inr (S', P') \<longrightarrow>
            list_all (scored env) S' \<and> grows_by (bfgs_scored env) S S'"
  proof (intro impI conjI)
    assume lp: "ga_loop env is (S, P) = Inr (S', P')"
    from extends_by_list_all [OF ga_loop_extends [OF lp R U1 U2] inv]
    show "list_all (scored env) S'" .
    from ga_loop_bfgs [OF lp] show "grows_by (bfgs_scored env) S S'" .
  qed
  have c4: "relax aenv a db = Inr a' \<longrightarrow>
            (\<exists>a_sum ei v1 ef B.
               ref_totals db (struct a) (remdups (struct a)) (0, 0) = Inr (a_sum, ei)
             \<and> eos_fit aenv (volumes_of (a_sum / real (length (struct a))))
                  (energies_of aenv (struct a) (volumes_of (a_sum / real (length (struct a)))))
                 = (v1, ef, B)
             \<and> key_value_pairs a' ''hof'' = Some (Num ((ef - ei) / real (length (struct a))))
             \<and> key_value_pairs a' ''raw_score''
                 = Some (Num (- ((ef - ei) / real (length (struct a))))))"
    using relax_values [of aenv a db a'] by blast
  have c5: "alloy_relax_all aenv db T = Inr T' \<longrightarrow>
            list_all hof_scored T' \<and> grows_by (relax_scored aenv db) T T'"
  proof (intro impI conjI)
    assume ra: "alloy_relax_all aenv db T = Inr T'"
    from extends_by_list_all [OF alloy_relax_all_extends [OF ra RT] invT]
    show "list_all hof_scored T'" .
    from alloy_relax_all_scored [OF ra] show "grows_by (relax_scored aenv db) T T'" .
  qed
  have c6: "alloy_generations aenv db psize gs (T, PA) = Inr (T', PA') \<longrightarrow>
            list_all hof_scored T' \<and> grows_by (relax_scored aenv db) T T'"
  proof (intro impI conjI)
    assume gn: "alloy_generations aenv db psize gs (T, PA) = Inr (T', PA')"
    from extends_by_list_all [OF alloy_generations_extends [OF gn RT UT] invT]
    show "list_all hof_scored T'" .
    from alloy_generations_scored [OF gn] show "grows_by (relax_scored aenv db) T T'" .
  qed
  have c7: "ga_main env Population S = Inr (S', P') \<longrightarrow>
            list_all (scored env) S' \<and> grows_by (bfgs_scored env) S S'"
  proof (intro impI conjI)
    assume gm: "ga_main env Population S = Inr (S', P')"
    from extends_by_list_all [OF ga_main_extends [OF gm R U1 U2] inv]
    show "list_all (scored env) S'" .
    from ga_main_bfgs [OF gm] show "grows_by (bfgs_scored env) S S'" .
  qed
  have c8: "alloy_main aenv db psize (T, PA) = Inr (T', PA') \<longrightarrow>
            list_all hof_scored T' \<and> grows_by (relax_scored aenv db) T T'"
  proof (intro impI conjI)
    assume am: "alloy_main aenv db psize (T, PA) = Inr (T', PA')"
    from extends_by_list_all [OF alloy_main_extends [OF am RT UT] invT]
    show "list_all hof_scored T'" .
    from alloy_main_scored [OF am] show "grows_by (relax_scored aenv db) T T'" .
  qed
  from c1 c2 c3 c4 c5 c6 c7 c8 show ?thesis by blast
qed

theorem raw_score_is_negated_energy_witness:
  "list_all (scored example_mutating_env) example_store
   \<and> list_all hof_scored example_alloy_store
   \<and> relax_one example_ga_env example_store
       = Inr (example_store @
                [\<lparr>gaid = 1, relaxed = True, origin = [], e_struct = 11,
                  e_kvp = [''raw_score'' \<mapsto> Num 11]\<rparr>])
   \<and> (\<exists>S'. relax_all example_mutating_env example_store = Inr S'
         \<and> list_all (scored example_mutating_env) S'
         \<and> grows_by (bfgs_scored example_mutating_env) example_store S')
   \<and> (\<exists>S' P'. ga_loop example_mutating_env [0] (example_store, example_population) = Inr (S', P')
         \<and> length S' = 5 \<and> list_all (scored example_mutating_env) S'
         \<and> grows_by (bfgs_scored example_mutating_env) example_store S')
   \<and> (\<exists>a' hof. relax example_alloy_env
          \<lparr>struct = [''Cu'', ''Cu'', ''Ni'', ''Ni''], confid = Some 1, key_value_pairs = Map.empty\<rparr>
          example_refs = Inr a'
         \<and> key_value_pairs a' ''hof'' = Some (Num hof)
         \<and> key_value_pairs a' ''raw_score'' = Some (Num (- hof)))
   \<and> (\<exists>T'. alloy_relax_all example_alloy_env example_refs example_alloy_store = Inr T'
         \<and> list_all hof_scored T'
         \<and> grows_by (relax_scored example_alloy_env example_refs) example_alloy_store T')
   \<and> (\<exists>T' PA'. alloy_generations example_alloy_env example_refs 1 [0]
           (example_alloy_store, example_alloy_population) = Inr (T', PA')
         \<and> length T' = 4 \<and> list_all hof_scored T'
         \<and> grows_by (relax_scored example_alloy_env example_refs) example_alloy_store T')
   \<and> (\<exists>S' P'. ga_main example_mutating_env get_all_relaxed_candidates example_store
           = Inr (S', P')
         \<and> length S' = 64 \<and> list_all (scored example_mutating_env) S'
         \<and> grows_by (bfgs_scored example_mutating_env) example_store S')
   \<and> (\<exists>T' PA'. alloy_main example_alloy_env example_refs 2 (example_alloy_store, [])
           = Inr (T', PA')
         \<and> length T' = 8 \<and> list_all hof_scored T'
         \<and> grows_by (relax_scored example_alloy_env example_refs) example_alloy_store T')"
proof -
  have inv: "list_all (scored example_mutating_env) example_store"
    by (simp add: example_store_def scored_def)
  have invT: "list_all hof_scored example_alloy_store"
    by (simp add: example_alloy_store_def hof_scored_def)
  note r1 = example_relax_one
  from example_ga_loop_runs obtain S' P' where
    lp: "ga_loop example_mutating_env [0] (example_store, example_population) = Inr (S', P')"
    and len: "length S' = 5" by blast
  from example_relax_runs obtain a' where
    rl: "relax example_alloy_env
          \<lparr>struct = [''Cu'', ''Cu'', ''Ni'', ''Ni''], confid = Some 1, key_value_pairs = Map.empty\<rparr>
          example_refs = Inr a'" by blast
  from example_alloy_relax_all_runs obtain T' where
    ra: "alloy_relax_all example_alloy_env example_refs example_alloy_store = Inr T'" by blast
  from example_alloy_generations_runs obtain T'' PA' where
    gn: "alloy_generations example_alloy_env example_refs 1 [0]
           (example_alloy_store, example_alloy_population) = Inr (T'', PA')"
    and lenT: "length T'' = 4" by blast
  from example_ga_main_runs obtain S2 P2 where
    gm: "ga_main example_mutating_env get_all_relaxed_candidates example_store = Inr (S2, P2)"
    and len2: "length S2 = 64" by blast
  from example_alloy_main_runs obtain T3 PA3 where
    am: "alloy_main example_alloy_env example_refs 2 (example_alloy_store, []) = Inr (T3, PA3)"
    and len3: "length T3 = 8" by blast
  note t = raw_score_is_negated_energy [OF inv invT]
  note c2 = t [THEN conjunct2, THEN conjunct1]
  note c3 = t [THEN conjunct2, THEN conjunct2, THEN conjunct1, rule_format]
  note c4 = t [THEN conjunct2, THEN conjunct2, THEN conjunct2, THEN conjunct1, rule_format]
  note c5 = t [THEN conjunct2, THEN conjunct2, THEN conjunct2, THEN conjunct2, THEN conjunct1,
      rule_format]
  note c6 = t [THEN conjunct2, THEN conjunct2, THEN conjunct2, THEN conjunct2, THEN conjunct2,
      THEN conjunct1, rule_format]
  note c7 = t [THEN conjunct2, THEN conjunct2, THEN conjunct2, THEN conjunct2, THEN conjunct2,
      THEN conjunct2, THEN conjunct1, rule_format]
  note c8 = t [THEN conjunct2, THEN conjunct2, THEN conjunct2, THEN conjunct2, THEN conjunct2,
      THEN conjunct2, THEN conjunct2, rule_format]
  from c2 have B: "\<exists>S'. relax_all example_mutating_env example_store = Inr S'
         \<and> list_all (scored example_mutating_env) S'
         \<and> grows_by (bfgs_scored example_mutating_env) example_store S'" .
  from c3 [OF lp] have C: "list_all (scored example_mutating_env) S'
         \<and> grows_by (bfgs_scored example_mutating_env) example_store S'" .
  from c4 [OF rl]
  have D: "\<exists>hof. key_value_pairs a' ''hof'' = Some (Num hof)
         \<and> key_value_pairs a' ''raw_score'' = Some (Num (- hof))" by blast
  from c5 [OF ra] have E: "list_all hof_scored T'
         \<and> grows_by (relax_scored example_alloy_env example_refs) example_alloy_store T'" .
  from c6 [OF gn] have F: "list_all hof_scored T''
         \<and> grows_by (relax_scored example_alloy_env example_refs) example_alloy_store T''" .
  from c7 [OF gm] have G: "list_all (scored example_mutating_env) S2
         \<and> grows_by (bfgs_scored example_mutating_env) example_store S2" .
  from c8 [OF am] have H: "list_all hof_scored T3
         \<and> grows_by (relax_scored example_alloy_env example_refs) example_alloy_store T3" .
  from inv invT r1 B lp len C rl D ra E gn lenT F gm len2 G am len3 H show ?thesis by blast
qed

section \<open>Facts about the reservation protocol\<close>

lemma matches_keys_self:
  "matches (keys n symb ads) \<lparr>row_id = i, row_atoms = x, row_kvp = map_of (keys n symb ads)\<rparr>"
  by (simp add: matches_def keys_def)

lemma wf_db_fresh:
  assumes "wf_db db"
  shows "filter (\<lambda>r. row_id r \<noteq> next_id db) (rows db) = rows db"
  using assms by (auto simp: wf_db_def list_all_iff intro!: filter_True)

lemma wf_db_fresh_map:
  assumes "wf_db db"
  shows "map (\<lambda>r. if row_id r = next_id db then f r else r) (rows db) = rows db"
  using assms by (auto simp: wf_db_def list_all_iff intro!: map_idI)

text \<open>
  The effect of one pass through the adsorbate body, in both branches.
\<close>

lemma ads_step_skip:
  assumes "select (keys n symb ads) db \<noteq> []"
  shows "ads_step env symb a n ads (db, tr) = (db, tr)"
  using assms by (simp add: ads_step_def reserve_def)

lemma ads_step_compute:
  assumes "select (keys n symb ads) db = []" and "wf_db db"
  shows "ads_step env symb a n ads (db, tr) =
           (\<lparr>rows = rows db @ [\<lparr>row_id = Suc (next_id db),
                                  row_atoms = Some (run env symb a n ads),
                                  row_kvp = map_of (keys n symb ads)\<rparr>],
             next_id = Suc (Suc (next_id db))\<rparr>,
            tr @ [(symb, a, n, ads)])"
  using assms wf_db_fresh [OF assms(2)]
  by (simp add: ads_step_def reserve_def db_write_def delete_def Let_def)

lemma clean_step_skip:
  assumes "select (keys n symb ''clean'') db \<noteq> []"
  shows "clean_step env symb a n (db, tr) = (db, tr)"
  using assms by (simp add: clean_step_def reserve_def)

lemma clean_step_compute:
  assumes "select (keys n symb ''clean'') db = []" and "wf_db db"
  shows "clean_step env symb a n (db, tr) =
           (\<lparr>rows = rows db @ [\<lparr>row_id = next_id db,
                                  row_atoms = Some (run_clean env symb a n),
                                  row_kvp = map_of (keys n symb ''clean'')\<rparr>],
             next_id = Suc (next_id db)\<rparr>,
            tr @ [(symb, a, n, ''clean'')])"
  using assms wf_db_fresh_map [OF assms(2)]
  by (simp add: clean_step_def reserve_def write_id_def Let_def)

lemma select_prefix:
  assumes "prefix (rows db) (rows db')" and "select q db \<noteq> []"
  shows "select q db' \<noteq> []"
proof -
  from assms(1) obtain ys where "rows db' = rows db @ ys" by (auto simp: prefix_def)
  with assms(2) show ?thesis by (simp add: select_def)
qed

lemma ads_step_grows:
  assumes "wf_db db"
  shows "wf_db (fst (ads_step env symb a n ads (db, tr)))
       \<and> prefix (rows db) (rows (fst (ads_step env symb a n ads (db, tr))))
       \<and> select (keys n symb ads) (fst (ads_step env symb a n ads (db, tr))) \<noteq> []"
proof (cases "select (keys n symb ads) db = []")
  case True
  show ?thesis
    unfolding ads_step_compute [OF True assms]
    using assms matches_keys_self [of n symb ads]
    by (auto simp: wf_db_def list_all_iff select_def)
next
  case False
  show ?thesis
    unfolding ads_step_skip [OF False] using assms False by simp
qed

lemma clean_step_grows:
  assumes "wf_db db"
  shows "wf_db (fst (clean_step env symb a n (db, tr)))
       \<and> prefix (rows db) (rows (fst (clean_step env symb a n (db, tr))))
       \<and> select (keys n symb ''clean'') (fst (clean_step env symb a n (db, tr))) \<noteq> []"
proof (cases "select (keys n symb ''clean'') db = []")
  case True
  show ?thesis
    unfolding clean_step_compute [OF True assms]
    using assms matches_keys_self [of n symb "''clean''"]
    by (auto simp: wf_db_def list_all_iff select_def)
next
  case False
  show ?thesis
    unfolding clean_step_skip [OF False] using assms False by simp
qed

text \<open>
  A loop over steps that skip covered keys and otherwise only append: afterwards every
  visited key is covered, and a loop over covered keys changes nothing.
\<close>

lemma fold_steps_grow:
  fixes step :: "'k \<Rightarrow> 'g script_state \<Rightarrow> 'g script_state"
  assumes ext: "\<And>k db tr. wf_db db \<Longrightarrow>
      wf_db (fst (step k (db, tr))) \<and> prefix (rows db) (rows (fst (step k (db, tr))))
      \<and> select (key k) (fst (step k (db, tr))) \<noteq> []"
    and wf: "wf_db (fst st)"
  shows "wf_db (fst (fold step ks st))
       \<and> prefix (rows (fst st)) (rows (fst (fold step ks st)))
       \<and> (\<forall>k \<in> set ks. select (key k) (fst (fold step ks st)) \<noteq> [])"
  using wf
proof (induction ks arbitrary: st)
  case Nil
  then show ?case by simp
next
  case (Cons k ks)
  obtain db tr where st: "st = (db, tr)" by (cases st)
  let ?st1 = "step k (db, tr)"
  from Cons.prems st have wf0: "wf_db db" by simp
  from ext [OF wf0, of k tr] have wf1: "wf_db (fst ?st1)"
    and p1: "prefix (rows db) (rows (fst ?st1))"
    and c1: "select (key k) (fst ?st1) \<noteq> []" by blast+
  from Cons.IH [OF wf1] have wf2: "wf_db (fst (fold step ks ?st1))"
    and p2: "prefix (rows (fst ?st1)) (rows (fst (fold step ks ?st1)))"
    and c2: "\<forall>k \<in> set ks. select (key k) (fst (fold step ks ?st1)) \<noteq> []" by blast+
  from p1 p2 have p: "prefix (rows db) (rows (fst (fold step ks ?st1)))"
    by (rule prefix_order.trans)
  from select_prefix [OF p2 c1] have "select (key k) (fst (fold step ks ?st1)) \<noteq> []" .
  with wf2 p c2 show ?case by (simp add: st)
qed

lemma fold_steps_skip:
  fixes step :: "'k \<Rightarrow> 'g script_state \<Rightarrow> 'g script_state"
  assumes skip: "\<And>k db tr. select (key k) db \<noteq> [] \<Longrightarrow> step k (db, tr) = (db, tr)"
    and cov: "\<forall>k \<in> set ks. select (key k) (fst st) \<noteq> []"
  shows "fold step ks st = st"
  using cov
proof (induction ks)
  case Nil
  then show ?case by simp
next
  case (Cons k ks)
  obtain db tr where st: "st = (db, tr)" by (cases st)
  from Cons.prems st have "select (key k) db \<noteq> []" by simp
  from skip [OF this] have "step k st = st" by (simp add: st)
  with Cons show ?case by simp
qed

lemma ads_script_rerun:
  assumes "wf_db (fst st)" and "ads_script env db1 st = Inr st'"
  shows "wf_db (fst st') \<and> prefix (rows (fst st)) (rows (fst st'))
       \<and> ads_script env db1 st' = Inr st'"
  using assms
proof (induction db1 arbitrary: st)
  case Nil
  then show ?case by simp
next
  case (Cons row db1)
  from Cons.prems(2) obtain st1 where r: "ads_row env row st = Inr st1"
    and s: "ads_script env db1 st1 = Inr st'"
    by (auto split: sum.splits)
  from r obtain symb a where rp: "row_params env row = Inr (symb, a)"
    by (auto simp: ads_row_def split: sum.splits)
  let ?step = "\<lambda>(n, ads). ads_step env symb a n ads"
  let ?key = "\<lambda>(n, ads). keys n symb ads"
  let ?ks = "List.product [1, 2, 3] [''C'', ''N'', ''O'']"
  have row: "\<And>x. ads_row env row x = Inr (fold ?step ?ks x)"
    by (simp add: ads_row_def rp)
  have ext: "\<And>k db tr. wf_db db \<Longrightarrow>
      wf_db (fst (?step k (db, tr))) \<and> prefix (rows db) (rows (fst (?step k (db, tr))))
      \<and> select (?key k) (fst (?step k (db, tr))) \<noteq> []"
    by (simp add: ads_step_grows split: prod.splits)
  have skip: "\<And>k db tr. select (?key k) db \<noteq> [] \<Longrightarrow> ?step k (db, tr) = (db, tr)"
    by (simp add: ads_step_skip split: prod.splits)
  from r row have st1: "st1 = fold ?step ?ks st" by simp
  from fold_steps_grow [of ?step ?key st ?ks, OF ext Cons.prems(1)]
  have wf1: "wf_db (fst st1)" and p1: "prefix (rows (fst st)) (rows (fst st1))"
    and c1: "\<forall>k \<in> set ?ks. select (?key k) (fst st1) \<noteq> []"
    unfolding st1 by blast+
  from Cons.IH [OF wf1 s] have wf2: "wf_db (fst st')"
    and p2: "prefix (rows (fst st1)) (rows (fst st'))"
    and again: "ads_script env db1 st' = Inr st'" by blast+
  from c1 have "\<forall>k \<in> set ?ks. select (?key k) (fst st') \<noteq> []"
    using select_prefix [OF p2] by blast
  from fold_steps_skip [of ?key ?step ?ks st', OF skip this]
  have "ads_row env row st' = Inr st'" by (simp add: row)
  with again have "ads_script env (row # db1) st' = Inr st'" by simp
  moreover from p1 p2 have "prefix (rows (fst st)) (rows (fst st'))"
    by (rule prefix_order.trans)
  ultimately show ?case using wf2 by blast
qed

lemma clean_script_rerun:
  assumes "wf_db (fst st)" and "clean_script env db1 st = Inr st'"
  shows "wf_db (fst st') \<and> prefix (rows (fst st)) (rows (fst st'))
       \<and> clean_script env db1 st' = Inr st'"
  using assms
proof (induction db1 arbitrary: st)
  case Nil
  then show ?case by simp
next
  case (Cons row db1)
  from Cons.prems(2) obtain st1 where r: "clean_row env row st = Inr st1"
    and s: "clean_script env db1 st1 = Inr st'"
    by (auto split: sum.splits)
  from r obtain symb a where rp: "row_params env row = Inr (symb, a)"
    by (auto simp: clean_row_def split: sum.splits)
  let ?step = "\<lambda>n. clean_step env symb a n"
  let ?key = "\<lambda>n. keys n symb ''clean''"
  let ?ks = "[1, 2, 3]"
  have row: "\<And>x. clean_row env row x = Inr (fold ?step ?ks x)"
    by (simp add: clean_row_def rp)
  have ext: "\<And>k db tr. wf_db db \<Longrightarrow>
      wf_db (fst (?step k (db, tr))) \<and> prefix (rows db) (rows (fst (?step k (db, tr))))
      \<and> select (?key k) (fst (?step k (db, tr))) \<noteq> []"
    by (simp add: clean_step_grows)
  have skip: "\<And>k db tr. select (?key k) db \<noteq> [] \<Longrightarrow> ?step k (db, tr) = (db, tr)"
    by (simp add: clean_step_skip)
  from r row have st1: "st1 = fold ?step ?ks st" by simp
  from fold_steps_grow [of ?step ?key st ?ks, OF ext Cons.prems(1)]
  have wf1: "wf_db (fst st1)" and p1: "prefix (rows (fst st)) (rows (fst st1))"
    and c1: "\<forall>k \<in> set ?ks. select (?key k) (fst st1) \<noteq> []"
    unfolding st1 by blast+
  from Cons.IH [OF wf1 s] have wf2: "wf_db (fst st')"
    and p2: "prefix (rows (fst st1)) (rows (fst st'))"
    and again: "clean_script env db1 st' = Inr st'" by blast+
  from c1 have "\<forall>k \<in> set ?ks. select (?key k) (fst st') \<noteq> []"
    using select_prefix [OF p2] by blast
  from fold_steps_skip [of ?key ?step ?ks st', OF skip this]
  have "clean_row env row st' = Inr st'" by (simp add: row)
  with again have "clean_script env (row # db1) st' = Inr st'" by simp
  moreover from p1 p2 have "prefix (rows (fst st)) (rows (fst st'))"
    by (rule prefix_order.trans)
  ultimately show ?case using wf2 by blast
qed

section \<open>Re-running the adsorption scripts\<close>

text \<open>
  Claim C2. Re-running a store-populating script is idempotent with respect to computed
  work. For every key combination, if a row with those keys already exists then
  \<open>reserve\<close> returns no identifier and the body leaves the database and the trace of
  evaluation calls as they are; and when a run of the whole script has completed, a second
  run from the resulting state makes no new evaluation call and leaves the database
  unchanged. This holds for the adsorbate script and for the clean-slab script.
\<close>

theorem rerun_skips_all_work:
  assumes "wf_db db2"
  shows "(select (keys n symb ads) db2 \<noteq> [] \<longrightarrow>
            reserve (keys n symb ads) db2 = (None, db2)
          \<and> ads_step env symb a n ads (db2, tr) = (db2, tr))
       \<and> (select (keys n symb ''clean'') db2 \<noteq> [] \<longrightarrow>
            reserve (keys n symb ''clean'') db2 = (None, db2)
          \<and> clean_step env symb a n (db2, tr) = (db2, tr))
       \<and> (ads_script env db1 (db2, tr) = Inr (db2', tr') \<longrightarrow>
            ads_script env db1 (db2', tr') = Inr (db2', tr'))
       \<and> (clean_script env db1 (db2, tr) = Inr (db2', tr') \<longrightarrow>
            clean_script env db1 (db2', tr') = Inr (db2', tr'))"
proof (intro conjI impI)
  assume "select (keys n symb ads) db2 \<noteq> []"
  then show "reserve (keys n symb ads) db2 = (None, db2)" by (simp add: reserve_def)
next
  assume "select (keys n symb ads) db2 \<noteq> []"
  then show "ads_step env symb a n ads (db2, tr) = (db2, tr)" by (rule ads_step_skip)
next
  assume "select (keys n symb ''clean'') db2 \<noteq> []"
  then show "reserve (keys n symb ''clean'') db2 = (None, db2)" by (simp add: reserve_def)
next
  assume "select (keys n symb ''clean'') db2 \<noteq> []"
  then show "clean_step env symb a n (db2, tr) = (db2, tr)" by (rule clean_step_skip)
next
  assume "ads_script env db1 (db2, tr) = Inr (db2', tr')"
  with ads_script_rerun [of "(db2, tr)" env db1 "(db2', tr')"] assms
  show "ads_script env db1 (db2', tr') = Inr (db2', tr')" by simp
next
  assume "clean_script env db1 (db2, tr) = Inr (db2', tr')"
  with clean_script_rerun [of "(db2, tr)" env db1 "(db2', tr')"] assms
  show "clean_script env db1 (db2', tr') = Inr (db2', tr')" by simp
qed

theorem rerun_skips_all_work_witness:
  "wf_db example_ads_db
   \<and> select (keys 1 ''Cu'' ''C'') example_ads_db \<noteq> []
   \<and> reserve (keys 1 ''Cu'' ''C'') example_ads_db = (None, example_ads_db)
   \<and> ads_step example_ads_env ''Cu'' 3.6 1 ''C'' (example_ads_db, []) = (example_ads_db, [])
   \<and> select (keys 1 ''Cu'' ''clean'') example_ads_db \<noteq> []
   \<and> clean_step example_ads_env ''Cu'' 3.6 1 (example_ads_db, []) = (example_ads_db, [])
   \<and> wf_db empty_db
   \<and> (\<exists>db2' tr'. ads_script example_ads_env [example_bulk_row] (empty_db, []) = Inr (db2', tr')
         \<and> length (rows db2') = 9 \<and> length tr' = 9
         \<and> ads_script example_ads_env [example_bulk_row] (db2', tr') = Inr (db2', tr'))
   \<and> (\<exists>db2' tr'. clean_script example_ads_env [example_bulk_row] (empty_db, []) = Inr (db2', tr')
         \<and> length (rows db2') = 3 \<and> length tr' = 3
         \<and> clean_script example_ads_env [example_bulk_row] (db2', tr') = Inr (db2', tr'))"
proof -
  have wf: "wf_db empty_db" by (simp add: wf_db_def empty_db_def)
  have wf': "wf_db example_ads_db" by (simp add: wf_db_def example_ads_db_def)
  have s1: "select (keys 1 ''Cu'' ''C'') example_ads_db \<noteq> []"
    by (simp add: select_def matches_def keys_def example_ads_db_def)
  have s2: "select (keys 1 ''Cu'' ''clean'') example_ads_db \<noteq> []"
    by (simp add: select_def matches_def keys_def example_ads_db_def)
  note t' = rerun_skips_all_work [OF wf', where n = 1 and symb = "''Cu''" and ads = "''C''"
      and env = example_ads_env and a = "3.6" and tr = "[]"]
  from t' [THEN conjunct1, rule_format, OF s1]
  have k1: "reserve (keys 1 ''Cu'' ''C'') example_ads_db = (None, example_ads_db)"
    and k2: "ads_step example_ads_env ''Cu'' 3.6 1 ''C'' (example_ads_db, []) = (example_ads_db, [])"
    by blast+
  from t' [THEN conjunct2, THEN conjunct1, rule_format, OF s2]
  have k3: "clean_step example_ads_env ''Cu'' 3.6 1 (example_ads_db, []) = (example_ads_db, [])"
    by blast
  have "\<exists>db2' tr'. ads_script example_ads_env [example_bulk_row] (empty_db, []) = Inr (db2', tr')
          \<and> length (rows db2') = 9 \<and> length tr' = 9"
    by (simp add: ads_row_def row_params_def example_bulk_row_def example_ads_env_def
        ads_step_def reserve_def select_def empty_db_def db_write_def delete_def keys_def
        run_def Let_def add_adsorbate_def fcc111_def matches_def)
  then obtain d1 t1 where
    a: "ads_script example_ads_env [example_bulk_row] (empty_db, []) = Inr (d1, t1)"
    and al: "length (rows d1) = 9" "length t1 = 9" by blast
  have "\<exists>db2' tr'. clean_script example_ads_env [example_bulk_row] (empty_db, []) = Inr (db2', tr')
          \<and> length (rows db2') = 3 \<and> length tr' = 3"
    by (simp add: clean_row_def row_params_def example_bulk_row_def example_ads_env_def
        clean_step_def reserve_def select_def empty_db_def write_id_def keys_def
        run_clean_def Let_def fcc111_def matches_def)
  then obtain d2 t2 where
    c: "clean_script example_ads_env [example_bulk_row] (empty_db, []) = Inr (d2, t2)"
    and cl: "length (rows d2) = 3" "length t2 = 3" by blast
  note t = rerun_skips_all_work [OF wf]
  from t [THEN conjunct2, THEN conjunct2, THEN conjunct1, rule_format, OF a]
  have a2: "ads_script example_ads_env [example_bulk_row] (d1, t1) = Inr (d1, t1)" .
  from t [THEN conjunct2, THEN conjunct2, THEN conjunct2, rule_format, OF c]
  have c2: "clean_script example_ads_env [example_bulk_row] (d2, t2) = Inr (d2, t2)" .
  from wf' s1 k1 k2 s2 k3 wf a al a2 c cl c2 show ?thesis by blast
qed

text \<open>
  Claim C10. A completed reservation leaves exactly one row per key combination. After a
  successful \<open>reserve\<close>, the rows that match the keys when the body has finished are
  exactly the one real row, which has a nonzero atom count. In the adsorbate script the
  real row is new and the placeholder's identifier is gone; in the clean-slab script the
  real row has overwritten the placeholder under the reserved identifier (\<open>n\<close> ranges
  over 1, 2, 3 there).
\<close>

theorem completed_reservation_leaves_one_real_row:
  assumes "wf_db db"
  shows "(reserve (keys n symb ads) db = (Some i, db1) \<longrightarrow>
            select (keys n symb ads) (fst (ads_step env symb a n ads (db, tr)))
              = [\<lparr>row_id = Suc i, row_atoms = Some (run env symb a n ads),
                  row_kvp = map_of (keys n symb ads)\<rparr>]
          \<and> 0 < natoms \<lparr>row_id = Suc i, row_atoms = Some (run env symb a n ads),
                         row_kvp = map_of (keys n symb ads)\<rparr>
          \<and> i \<notin> set (map row_id (rows (fst (ads_step env symb a n ads (db, tr))))))
       \<and> (reserve (keys n symb ''clean'') db = (Some i, db1) \<longrightarrow>
            select (keys n symb ''clean'') (fst (clean_step env symb a n (db, tr)))
              = [\<lparr>row_id = i, row_atoms = Some (run_clean env symb a n),
                  row_kvp = map_of (keys n symb ''clean'')\<rparr>]
          \<and> (n \<in> {1, 2, 3} \<longrightarrow>
                0 < natoms \<lparr>row_id = i, row_atoms = Some (run_clean env symb a n),
                             row_kvp = map_of (keys n symb ''clean'')\<rparr>))"
proof (intro conjI impI)
  assume r: "reserve (keys n symb ads) db = (Some i, db1)"
  then have none: "select (keys n symb ads) db = []" and i: "i = next_id db"
    by (auto simp: reserve_def split: if_splits)
  from none have old: "filter (matches (keys n symb ads)) (rows db) = []"
    by (simp add: select_def)
  show "select (keys n symb ads) (fst (ads_step env symb a n ads (db, tr)))
          = [\<lparr>row_id = Suc i, row_atoms = Some (run env symb a n ads),
              row_kvp = map_of (keys n symb ads)\<rparr>]"
    unfolding ads_step_compute [OF none assms] i
    using old matches_keys_self [of n symb ads] by (simp add: select_def)
  show "0 < natoms \<lparr>row_id = Suc i, row_atoms = Some (run env symb a n ads),
                     row_kvp = map_of (keys n symb ads)\<rparr>"
    by (simp add: natoms_def run_def Let_def add_adsorbate_def fcc111_def)
  show "i \<notin> set (map row_id (rows (fst (ads_step env symb a n ads (db, tr)))))"
    unfolding ads_step_compute [OF none assms] i
    using assms by (auto simp: wf_db_def list_all_iff)
next
  assume r: "reserve (keys n symb ''clean'') db = (Some i, db1)"
  then have none: "select (keys n symb ''clean'') db = []" and i: "i = next_id db"
    by (auto simp: reserve_def split: if_splits)
  from none have old: "filter (matches (keys n symb ''clean'')) (rows db) = []"
    by (simp add: select_def)
  show "select (keys n symb ''clean'') (fst (clean_step env symb a n (db, tr)))
          = [\<lparr>row_id = i, row_atoms = Some (run_clean env symb a n),
              row_kvp = map_of (keys n symb ''clean'')\<rparr>]"
    unfolding clean_step_compute [OF none assms] i
    using old matches_keys_self [of n symb "''clean''"] by (simp add: select_def)
  assume "n \<in> {1, 2, 3}"
  then show "0 < natoms \<lparr>row_id = i, row_atoms = Some (run_clean env symb a n),
                          row_kvp = map_of (keys n symb ''clean'')\<rparr>"
    by (auto simp: natoms_def run_clean_def fcc111_def)
qed

theorem completed_reservation_leaves_one_real_row_witness:
  "wf_db empty_db
   \<and> reserve (keys 1 ''Cu'' ''C'') empty_db
       = (Some 1, \<lparr>rows = [\<lparr>row_id = 1, row_atoms = None,
                               row_kvp = map_of (keys 1 ''Cu'' ''C'')\<rparr>], next_id = 2\<rparr>)
   \<and> select (keys 1 ''Cu'' ''C'')
         (fst (ads_step example_ads_env ''Cu'' 3.6 1 ''C'' (empty_db, [])))
       = [\<lparr>row_id = 2, row_atoms = Some \<lparr>symbols = [''Cu'', ''C''], geometry = ()\<rparr>,
           row_kvp = map_of (keys 1 ''Cu'' ''C'')\<rparr>]
   \<and> 1 \<notin> set (map row_id (rows (fst (ads_step example_ads_env ''Cu'' 3.6 1 ''C'' (empty_db, [])))))
   \<and> reserve (keys 1 ''Cu'' ''clean'') empty_db
       = (Some 1, \<lparr>rows = [\<lparr>row_id = 1, row_atoms = None,
                               row_kvp = map_of (keys 1 ''Cu'' ''clean'')\<rparr>], next_id = 2\<rparr>)
   \<and> (1::nat) \<in> {1, 2, 3}
   \<and> select (keys 1 ''Cu'' ''clean'')
         (fst (clean_step example_ads_env ''Cu'' 3.6 1 (empty_db, [])))
       = [\<lparr>row_id = 1, row_atoms = Some \<lparr>symbols = [''Cu''], geometry = ()\<rparr>,
           row_kvp = map_of (keys 1 ''Cu'' ''clean'')\<rparr>]
   \<and> 0 < natoms \<lparr>row_id = 1, row_atoms = Some (run_clean example_ads_env ''Cu'' 3.6 1),
                   row_kvp = map_of (keys 1 ''Cu'' ''clean'')\<rparr>"
proof -
  have wf: "wf_db empty_db" by (simp add: wf_db_def empty_db_def)
  have r1: "reserve (keys 1 ''Cu'' ''C'') empty_db
       = (Some 1, \<lparr>rows = [\<lparr>row_id = 1, row_atoms = None,
                               row_kvp = map_of (keys 1 ''Cu'' ''C'')\<rparr>], next_id = 2\<rparr>)"
    by (simp add: reserve_def select_def empty_db_def)
  have r2: "reserve (keys 1 ''Cu'' ''clean'') empty_db
       = (Some 1, \<lparr>rows = [\<lparr>row_id = 1, row_atoms = None,
                               row_kvp = map_of (keys 1 ''Cu'' ''clean'')\<rparr>], next_id = 2\<rparr>)"
    by (simp add: reserve_def select_def empty_db_def)
  have run1: "run example_ads_env ''Cu'' 3.6 1 ''C'' = \<lparr>symbols = [''Cu'', ''C''], geometry = ()\<rparr>"
    by (simp add: run_def Let_def add_adsorbate_def fcc111_def example_ads_env_def)
  have run2: "run_clean example_ads_env ''Cu'' 3.6 1 = \<lparr>symbols = [''Cu''], geometry = ()\<rparr>"
    by (simp add: run_clean_def fcc111_def example_ads_env_def)
  have m: "(1::nat) \<in> {1, 2, 3}" by simp
  note t = completed_reservation_leaves_one_real_row [OF wf, where n = 1 and symb = "''Cu''"
      and i = 1 and env = example_ads_env and a = "3.6" and tr = "[]"]
  from t [where ads = "''C''", THEN conjunct1, rule_format, OF r1, unfolded run1 Suc_1]
  have A: "select (keys 1 ''Cu'' ''C'')
         (fst (ads_step example_ads_env ''Cu'' 3.6 1 ''C'' (empty_db, [])))
       = [\<lparr>row_id = 2, row_atoms = Some \<lparr>symbols = [''Cu'', ''C''], geometry = ()\<rparr>,
           row_kvp = map_of (keys 1 ''Cu'' ''C'')\<rparr>]"
    and B: "1 \<notin> set (map row_id (rows (fst (ads_step example_ads_env ''Cu'' 3.6 1 ''C'' (empty_db, [])))))"
    by blast+
  from t [where ads = "''C''", THEN conjunct2, rule_format, OF r2]
  have C0: "select (keys 1 ''Cu'' ''clean'')
         (fst (clean_step example_ads_env ''Cu'' 3.6 1 (empty_db, [])))
       = [\<lparr>row_id = 1, row_atoms = Some (run_clean example_ads_env ''Cu'' 3.6 1),
           row_kvp = map_of (keys 1 ''Cu'' ''clean'')\<rparr>]"
    and D: "0 < natoms \<lparr>row_id = 1, row_atoms = Some (run_clean example_ads_env ''Cu'' 3.6 1),
                   row_kvp = map_of (keys 1 ''Cu'' ''clean'')\<rparr>"
    using m by blast+
  from C0 [unfolded run2]
  have C: "select (keys 1 ''Cu'' ''clean'')
         (fst (clean_step example_ads_env ''Cu'' 3.6 1 (empty_db, [])))
       = [\<lparr>row_id = 1, row_atoms = Some \<lparr>symbols = [''Cu''], geometry = ()\<rparr>,
           row_kvp = map_of (keys 1 ''Cu'' ''clean'')\<rparr>]"
    .
  from wf r1 A B r2 m C D show ?thesis by blast
qed

section \<open>Growth of the stores\<close>

text \<open>
  Claim C3, as the scripts have it. The GA candidate store only grows by appending: the
  relax-all loops and the main loops return a store of which the store they started from
  is a prefix. The adsorption scripts do remove a row: \<open>del db2[id]\<close> removes the empty
  placeholder that \<open>reserve\<close> wrote in the same pass, after the real row is written.
  Every row present before a pass of a reservation loop is still present after it, and the
  rows before a run of a script are a prefix of the rows after it.
\<close>

theorem stores_grow_by_appending:
  "(relax_all env S = Inr S' \<longrightarrow> prefix S S')
 \<and> (ga_loop env is (S, P) = Inr (S', P') \<longrightarrow> prefix S S')
 \<and> (alloy_relax_all aenv db T = Inr T' \<longrightarrow> prefix T T')
 \<and> (alloy_generations aenv db psize gs (T, PA) = Inr (T', PA') \<longrightarrow> prefix T T')
 \<and> (wf_db d \<longrightarrow>
       prefix (rows d) (rows (fst (ads_step denv symb a n ads (d, tr))))
     \<and> prefix (rows d) (rows (fst (clean_step denv symb a n (d, tr)))))
 \<and> (wf_db d \<longrightarrow> ads_script denv db1 (d, tr) = Inr (d', tr') \<longrightarrow> prefix (rows d) (rows d'))
 \<and> (wf_db d \<longrightarrow> clean_script denv db1 (d, tr) = Inr (d', tr') \<longrightarrow> prefix (rows d) (rows d'))
 \<and> (ga_main env Population S = Inr (S', P') \<longrightarrow> prefix S S')
 \<and> (alloy_main aenv db psize (T, PA) = Inr (T', PA') \<longrightarrow> prefix T T')"
proof -
  let ?Q = "\<lambda>e :: 'a entry. True"
  let ?QT = "\<lambda>e :: string list entry. True"
  have c1: "relax_all env S = Inr S' \<longrightarrow> prefix S S'"
    using extends_by_prefix [OF relax_all_extends [of env S S' ?Q]] by simp
  have c2: "ga_loop env is (S, P) = Inr (S', P') \<longrightarrow> prefix S S'"
    using extends_by_prefix [OF ga_loop_extends [of env "is" S P S' P' ?Q]] by simp
  have c3: "alloy_relax_all aenv db T = Inr T' \<longrightarrow> prefix T T'"
    using extends_by_prefix [OF alloy_relax_all_extends [of aenv db T T' ?QT]] by simp
  have c4: "alloy_generations aenv db psize gs (T, PA) = Inr (T', PA') \<longrightarrow> prefix T T'"
    using extends_by_prefix [OF alloy_generations_extends [of aenv db psize gs T PA T' PA' ?QT]]
    by simp
  have c5: "wf_db d \<longrightarrow>
       prefix (rows d) (rows (fst (ads_step denv symb a n ads (d, tr))))
     \<and> prefix (rows d) (rows (fst (clean_step denv symb a n (d, tr))))"
    using ads_step_grows [of d denv symb a n ads tr] clean_step_grows [of d denv symb a n tr]
    by blast
  have c6: "wf_db d \<longrightarrow> ads_script denv db1 (d, tr) = Inr (d', tr') \<longrightarrow>
              prefix (rows d) (rows d')"
    using ads_script_rerun [of "(d, tr)" denv db1 "(d', tr')"] by simp
  have c7: "wf_db d \<longrightarrow> clean_script denv db1 (d, tr) = Inr (d', tr') \<longrightarrow>
              prefix (rows d) (rows d')"
    using clean_script_rerun [of "(d, tr)" denv db1 "(d', tr')"] by simp
  have c8: "ga_main env Population S = Inr (S', P') \<longrightarrow> prefix S S'"
    using extends_by_prefix [OF ga_main_extends [of env Population S S' P' ?Q]] by simp
  have c9: "alloy_main aenv db psize (T, PA) = Inr (T', PA') \<longrightarrow> prefix T T'"
    using extends_by_prefix [OF alloy_main_extends [of aenv db psize T PA T' PA' ?QT]] by simp
  from c1 c2 c3 c4 c5 c6 c7 c8 c9 show ?thesis by blast
qed

text \<open>
  The claim as stated, that no identifier once present is ever removed, fails on the
  adsorbate script: on the empty database \<open>reserve\<close> writes the placeholder row 1, and
  when the pass has written the real row 2 and deleted the placeholder, identifier 1 is
  gone.
\<close>

theorem placeholder_row_is_removed:
  "map row_id (rows (snd (reserve (keys 1 ''Cu'' ''C'') empty_db))) = [1]
 \<and> map row_id (rows (delete 1 (snd (db_write (run example_ads_env ''Cu'' 3.6 1 ''C'')
        (keys 1 ''Cu'' ''C'') (snd (reserve (keys 1 ''Cu'' ''C'') empty_db)))))) = [2]
 \<and> fst (ads_step example_ads_env ''Cu'' 3.6 1 ''C'' (empty_db, []))
     = delete 1 (snd (db_write (run example_ads_env ''Cu'' 3.6 1 ''C'')
        (keys 1 ''Cu'' ''C'') (snd (reserve (keys 1 ''Cu'' ''C'') empty_db))))
 \<and> \<not> set (map row_id (rows (snd (reserve (keys 1 ''Cu'' ''C'') empty_db))))
       \<subseteq> set (map row_id (rows (fst (ads_step example_ads_env ''Cu'' 3.6 1 ''C'' (empty_db, [])))))"
  by (simp add: reserve_def select_def empty_db_def db_write_def delete_def ads_step_def Let_def)

theorem stores_grow_by_appending_witness:
  "(\<exists>S'. relax_all example_ga_env example_store = Inr S' \<and> prefix example_store S')
   \<and> (\<exists>S' P'. ga_loop example_mutating_env [0] (example_store, example_population) = Inr (S', P')
         \<and> length S' = 5 \<and> prefix example_store S')
   \<and> (\<exists>T'. alloy_relax_all example_alloy_env example_refs example_alloy_store = Inr T'
         \<and> prefix example_alloy_store T')
   \<and> (\<exists>T' PA'. alloy_generations example_alloy_env example_refs 1 [0]
           (example_alloy_store, example_alloy_population) = Inr (T', PA')
         \<and> length T' = 4 \<and> prefix example_alloy_store T')
   \<and> (\<exists>S' P'. ga_main example_mutating_env get_all_relaxed_candidates example_store
           = Inr (S', P')
         \<and> length S' = 64 \<and> prefix example_store S')
   \<and> (\<exists>T' PA'. alloy_main example_alloy_env example_refs 2 (example_alloy_store, [])
           = Inr (T', PA')
         \<and> length T' = 8 \<and> prefix example_alloy_store T')
   \<and> wf_db empty_db
   \<and> prefix (rows empty_db) (rows (fst (ads_step example_ads_env ''Cu'' 3.6 1 ''C'' (empty_db, []))))
   \<and> prefix (rows empty_db) (rows (fst (clean_step example_ads_env ''Cu'' 3.6 1 (empty_db, []))))
   \<and> (\<exists>d' tr'. ads_script example_ads_env [example_bulk_row] (empty_db, []) = Inr (d', tr')
         \<and> prefix (rows empty_db) (rows d'))
   \<and> (\<exists>d' tr'. clean_script example_ads_env [example_bulk_row] (empty_db, []) = Inr (d', tr')
         \<and> prefix (rows empty_db) (rows d'))"
proof -
  from relax_all_zero [of example_ga_env example_store] obtain S0 where
    r0: "relax_all example_ga_env example_store = Inr S0" by blast
  from example_ga_loop_runs obtain S' P' where
    lp: "ga_loop example_mutating_env [0] (example_store, example_population) = Inr (S', P')"
    and len: "length S' = 5" by blast
  from example_alloy_relax_all_runs obtain T' where
    ra: "alloy_relax_all example_alloy_env example_refs example_alloy_store = Inr T'" by blast
  from example_alloy_generations_runs obtain T'' PA' where
    gn: "alloy_generations example_alloy_env example_refs 1 [0]
           (example_alloy_store, example_alloy_population) = Inr (T'', PA')"
    and lenT: "length T'' = 4" by blast
  from example_ga_main_runs obtain S2 P2 where
    gm: "ga_main example_mutating_env get_all_relaxed_candidates example_store = Inr (S2, P2)"
    and len2: "length S2 = 64" by blast
  from example_alloy_main_runs obtain T3 PA3 where
    am: "alloy_main example_alloy_env example_refs 2 (example_alloy_store, []) = Inr (T3, PA3)"
    and len3: "length T3 = 8" by blast
  have wf: "wf_db empty_db" by (simp add: wf_db_def empty_db_def)
  have "\<exists>d' tr'. ads_script example_ads_env [example_bulk_row] (empty_db, []) = Inr (d', tr')"
    by (simp add: ads_row_def row_params_def example_bulk_row_def split: prod.splits)
  then obtain d1 t1 where
    a: "ads_script example_ads_env [example_bulk_row] (empty_db, []) = Inr (d1, t1)" by blast
  have "\<exists>d' tr'. clean_script example_ads_env [example_bulk_row] (empty_db, []) = Inr (d', tr')"
    by (simp add: clean_row_def row_params_def example_bulk_row_def split: prod.splits)
  then obtain d2 t2 where
    c: "clean_script example_ads_env [example_bulk_row] (empty_db, []) = Inr (d2, t2)" by blast
  note t = stores_grow_by_appending
  from t [THEN conjunct1, rule_format, OF r0] have A: "prefix example_store S0" .
  from t [THEN conjunct2, THEN conjunct1, rule_format, OF lp] have B: "prefix example_store S'" .
  from t [THEN conjunct2, THEN conjunct2, THEN conjunct1, rule_format, OF ra]
  have C: "prefix example_alloy_store T'" .
  from t [THEN conjunct2, THEN conjunct2, THEN conjunct2, THEN conjunct1, rule_format, OF gn]
  have D: "prefix example_alloy_store T''" .
  note t5 = t [THEN conjunct2, THEN conjunct2, THEN conjunct2, THEN conjunct2, THEN conjunct1,
      rule_format, OF wf]
  from t5 [THEN conjunct1]
  have E: "prefix (rows empty_db)
             (rows (fst (ads_step example_ads_env ''Cu'' 3.6 1 ''C'' (empty_db, []))))" .
  from t5 [THEN conjunct2]
  have F: "prefix (rows empty_db)
             (rows (fst (clean_step example_ads_env ''Cu'' 3.6 1 (empty_db, []))))" .
  from t [THEN conjunct2, THEN conjunct2, THEN conjunct2, THEN conjunct2, THEN conjunct2,
      THEN conjunct1, rule_format, OF wf a]
  have G: "prefix (rows empty_db) (rows d1)" .
  from t [THEN conjunct2, THEN conjunct2, THEN conjunct2, THEN conjunct2, THEN conjunct2,
      THEN conjunct2, THEN conjunct1, rule_format, OF wf c]
  have H: "prefix (rows empty_db) (rows d2)" .
  from t [THEN conjunct2, THEN conjunct2, THEN conjunct2, THEN conjunct2, THEN conjunct2,
      THEN conjunct2, THEN conjunct2, THEN conjunct1, rule_format, OF gm]
  have I: "prefix example_store S2" .
  from t [THEN conjunct2, THEN conjunct2, THEN conjunct2, THEN conjunct2, THEN conjunct2,
      THEN conjunct2, THEN conjunct2, THEN conjunct2, rule_format, OF am]
  have J: "prefix example_alloy_store T3" .
  from r0 A lp len B ra C gn lenT D gm len2 I am len3 J wf E F a G c H show ?thesis by blast
qed

end
